theory Spec2Isabelle
  imports Complex_Main "HOL-Library.Multiset" "HOL-Library.AList"
begin

section \<open>The pairing pipeline of LavaPairingSystem\<close>

text \<open>
  A shallow embedding of \<^verbatim>\<open>internal/models.go\<close>, \<^verbatim>\<open>internal/filter\<close>,
  \<^verbatim>\<open>internal/score\<close>, \<^verbatim>\<open>internal/utils\<close>, \<^verbatim>\<open>internal/mock\<close> and
  \<^verbatim>\<open>internal/system/system.go\<close>.

  Conventions of the embedding.
  \<^item> A \<^verbatim>\<open>*pairing.Provider\<close> is modelled by the record it points to; nil pointers are
    outside the model.
  \<^item> \<^verbatim>\<open>int64\<close> stakes are \<open>int\<close>: the code only compares them and converts them to
    \<^verbatim>\<open>float64\<close>, it never adds or multiplies them, so no wrap-around can occur.
  \<^item> \<^verbatim>\<open>float64\<close> is idealised as \<open>real\<close>: rounding, infinities and NaN are not modelled.
  \<^item> \<^verbatim>\<open>NormalizedFees\<close>, a Go map that is only written and looked up, is a map
    \<open>string \<rightharpoonup> real\<close>. \<^verbatim>\<open>Weights\<close>, of which the code takes the length, is an
    association list read with \<open>map_of\<close>: the first binding of a key is the one that
    counts, so every association list stands for a Go map and \<open>map_len\<close> is its \<^verbatim>\<open>len\<close>.
    The \<^verbatim>\<open>components\<close> map, which the code iterates over, is an association list with
    unique keys, maintained by \<open>AList.update\<close>.
  \<^item> The logger only observes; it is left out.
  \<^item> An interface value (\<^verbatim>\<open>filter.Filter\<close>, \<^verbatim>\<open>score.Scorer\<close>) is the record of its methods.
\<close>

subsection \<open>Data model (\<^verbatim>\<open>internal/models.go\<close>, \<^verbatim>\<open>internal/score/types.go\<close>)\<close>

record Provider =
  ID :: string
  Fee :: real
  Address :: string
  Stake :: int
  Location :: string
  Features :: "string list"

record ConsumerPolicy =
  RequiredLocation :: string
  RequiredFeatures :: "string list"
  MinStake :: int
  Weights :: "(string \<times> real) list"

text \<open>\<^verbatim>\<open>len\<close> of a Go map given as an association list: the number of its keys.\<close>

definition map_len :: "('k \<times> 'v) list \<Rightarrow> nat" where
  "map_len m = length (remdups (map fst m))"

record PairingScore =
  Provider :: Provider
  Score :: real
  Components :: "(string \<times> real) list"

record PreScoreContext =
  MaxStake :: int
  AverageLatency :: real
  NormalizedFees :: "string \<rightharpoonup> real"

subsection \<open>Filters (\<^verbatim>\<open>internal/filter\<close>)\<close>

record Filter =
  filter_Apply :: "Provider list \<Rightarrow> ConsumerPolicy \<Rightarrow> Provider list"
  filter_ApplySingle :: "Provider \<Rightarrow> ConsumerPolicy \<Rightarrow> bool"
  filter_Name :: string

fun LocationFilter_Apply :: "Provider list \<Rightarrow> ConsumerPolicy \<Rightarrow> Provider list" where
  "LocationFilter_Apply [] policy = []"
| "LocationFilter_Apply (p # providers) policy =
     (if Location p = RequiredLocation policy
      then p # LocationFilter_Apply providers policy
      else LocationFilter_Apply providers policy)"

definition LocationFilter_ApplySingle :: "Provider \<Rightarrow> ConsumerPolicy \<Rightarrow> bool" where
  "LocationFilter_ApplySingle provider policy \<longleftrightarrow> Location provider = RequiredLocation policy"

definition LocationFilter :: Filter where
  "LocationFilter =
     \<lparr>filter_Apply = LocationFilter_Apply,
      filter_ApplySingle = LocationFilter_ApplySingle,
      filter_Name = ''LocationFilter''\<rparr>"

text \<open>
  The \<^verbatim>\<open>required\<close> map of the feature filter is a set of strings; its keys are the
  required features without repetition. Go iterates over them in an unspecified order;
  the loop only computes a conjunction, so the order chosen here does not matter.
\<close>

definition required_keys :: "ConsumerPolicy \<Rightarrow> string list" where
  "required_keys policy = remdups (RequiredFeatures policy)"

text \<open>The innermost loop: is \<open>req\<close> found among the provider's features?\<close>

fun feature_found :: "string \<Rightarrow> string list \<Rightarrow> bool" where
  "feature_found req [] = False"
| "feature_found req (pf # rest) = (if pf = req then True else feature_found req rest)"

text \<open>The loop over the required features, leaving at the first one that is not found.\<close>

fun has_all_required :: "string list \<Rightarrow> string list \<Rightarrow> bool" where
  "has_all_required [] features = True"
| "has_all_required (req # reqs) features =
     (if \<not> feature_found req features then False else has_all_required reqs features)"

fun FeatureFilter_loop :: "string list \<Rightarrow> Provider list \<Rightarrow> Provider list" where
  "FeatureFilter_loop required [] = []"
| "FeatureFilter_loop required (p # providers) =
     (if has_all_required required (Features p)
      then p # FeatureFilter_loop required providers
      else FeatureFilter_loop required providers)"

definition FeatureFilter_Apply :: "Provider list \<Rightarrow> ConsumerPolicy \<Rightarrow> Provider list" where
  "FeatureFilter_Apply providers policy = FeatureFilter_loop (required_keys policy) providers"

definition FeatureFilter_ApplySingle :: "Provider \<Rightarrow> ConsumerPolicy \<Rightarrow> bool" where
  "FeatureFilter_ApplySingle provider policy \<longleftrightarrow>
     has_all_required (required_keys policy) (Features provider)"

definition FeatureFilter :: Filter where
  "FeatureFilter =
     \<lparr>filter_Apply = FeatureFilter_Apply,
      filter_ApplySingle = FeatureFilter_ApplySingle,
      filter_Name = ''FeatureFilter''\<rparr>"

fun StakeFilter_Apply :: "Provider list \<Rightarrow> ConsumerPolicy \<Rightarrow> Provider list" where
  "StakeFilter_Apply [] policy = []"
| "StakeFilter_Apply (p # providers) policy =
     (if Stake p \<ge> MinStake policy
      then p # StakeFilter_Apply providers policy
      else StakeFilter_Apply providers policy)"

definition StakeFilter_ApplySingle :: "Provider \<Rightarrow> ConsumerPolicy \<Rightarrow> bool" where
  "StakeFilter_ApplySingle provider policy \<longleftrightarrow> Stake provider \<ge> MinStake policy"

definition StakeFilter :: Filter where
  "StakeFilter =
     \<lparr>filter_Apply = StakeFilter_Apply,
      filter_ApplySingle = StakeFilter_ApplySingle,
      filter_Name = ''StakeFilter''\<rparr>"

subsection \<open>Scorers (\<^verbatim>\<open>internal/score\<close>)\<close>

record Scorer =
  scorer_Score :: "Provider \<Rightarrow> ConsumerPolicy \<Rightarrow> PreScoreContext \<Rightarrow> real"
  scorer_Name :: string

definition StakeScore_Score :: "Provider \<Rightarrow> ConsumerPolicy \<Rightarrow> PreScoreContext \<Rightarrow> real" where
  "StakeScore_Score p policy ctx =
     (if MaxStake ctx = 0 then 0 else real_of_int (Stake p) / real_of_int (MaxStake ctx))"

definition StakeScore :: Scorer where
  "StakeScore = \<lparr>scorer_Score = StakeScore_Score, scorer_Name = ''StakeScore''\<rparr>"

text \<open>Counting the provider's features that are not required.\<close>

fun count_extra :: "string list \<Rightarrow> string list \<Rightarrow> nat" where
  "count_extra required [] = 0"
| "count_extra required (pf # rest) =
     (if pf \<notin> set required then Suc (count_extra required rest) else count_extra required rest)"

definition FeatureScore_Score :: "Provider \<Rightarrow> ConsumerPolicy \<Rightarrow> PreScoreContext \<Rightarrow> real" where
  "FeatureScore_Score p policy ctx =
     (if length (Features p) = 0 then 0
      else real (count_extra (RequiredFeatures policy) (Features p)) / real (length (Features p)))"

definition FeatureScore :: Scorer where
  "FeatureScore = \<lparr>scorer_Score = FeatureScore_Score, scorer_Name = ''FeatureScore''\<rparr>"

text \<open>
  \<^verbatim>\<open>strings.EqualFold\<close> belongs to Go's standard library. It is modelled on ASCII
  strings, where simple case folding maps the letters \<^verbatim>\<open>A\<close> to \<^verbatim>\<open>Z\<close> to \<^verbatim>\<open>a\<close> to \<^verbatim>\<open>z\<close>
  and leaves every other byte alone.
\<close>

definition fold_ascii :: "char \<Rightarrow> char" where
  "fold_ascii c =
     (let n = (of_char c :: nat) in if 65 \<le> n \<and> n \<le> 90 then char_of (n + 32) else c)"

definition EqualFold :: "string \<Rightarrow> string \<Rightarrow> bool" where
  "EqualFold s t \<longleftrightarrow> map fold_ascii s = map fold_ascii t"

definition LocationScore_Score :: "Provider \<Rightarrow> ConsumerPolicy \<Rightarrow> PreScoreContext \<Rightarrow> real" where
  "LocationScore_Score p policy ctx =
     (if EqualFold (Location p) (RequiredLocation policy) then 1 else 1 / 2)"

definition LocationScore :: Scorer where
  "LocationScore = \<lparr>scorer_Score = LocationScore_Score, scorer_Name = ''LocationScore''\<rparr>"

definition FeeScore_Score :: "Provider \<Rightarrow> ConsumerPolicy \<Rightarrow> PreScoreContext \<Rightarrow> real" where
  "FeeScore_Score provider policy ctx =
     (case NormalizedFees ctx (ID provider) of None \<Rightarrow> 0 | Some fee \<Rightarrow> 1 - fee)"

definition FeeScore :: Scorer where
  "FeeScore = \<lparr>scorer_Score = FeeScore_Score, scorer_Name = ''FeeScore''\<rparr>"

subsection \<open>Utilities (\<^verbatim>\<open>internal/utils\<close>)\<close>

definition utils_Min :: "nat \<Rightarrow> nat \<Rightarrow> nat" where
  "utils_Min a b = (if a < b then a else b)"

fun max_stake_loop :: "Provider list \<Rightarrow> int \<Rightarrow> int" where
  "max_stake_loop [] maxStake = maxStake"
| "max_stake_loop (p # providers) maxStake =
     max_stake_loop providers (if Stake p > maxStake then Stake p else maxStake)"

definition ComputeMaxStake :: "Provider list \<Rightarrow> int" where
  "ComputeMaxStake providers = max_stake_loop providers 0"

fun max_fee_loop :: "Provider list \<Rightarrow> real \<Rightarrow> real" where
  "max_fee_loop [] maxFee = maxFee"
| "max_fee_loop (p # providers) maxFee =
     max_fee_loop providers (if Fee p > maxFee then Fee p else maxFee)"

fun normalize_loop :: "Provider list \<Rightarrow> real \<Rightarrow> (string \<rightharpoonup> real) \<Rightarrow> (string \<rightharpoonup> real)" where
  "normalize_loop [] maxFee normalized = normalized"
| "normalize_loop (p # providers) maxFee normalized =
     normalize_loop providers maxFee (normalized(ID p \<mapsto> Fee p / maxFee))"

definition ComputeNormalizedFees :: "Provider list \<Rightarrow> (string \<rightharpoonup> real)" where
  "ComputeNormalizedFees providers =
     (let maxFee = max_fee_loop providers 0;
          maxFee = (if maxFee = 0 then 1 else maxFee)
      in normalize_loop providers maxFee Map.empty)"

subsection \<open>The pairing system (\<^verbatim>\<open>internal/system\<close>)\<close>

definition topNProviders :: nat where "topNProviders = 5"
definition parallelFilterThreshold :: nat where "parallelFilterThreshold = 50"
definition workerCount :: nat where "workerCount = 10"

record pairingSystem =
  filters :: "Filter list"
  scorers :: "Scorer list"
  strictMode :: bool

text \<open>
  \<^verbatim>\<open>GetPairingList\<close> returns one error. A read of \<^verbatim>\<open>scored[i]\<close> beyond the end of the
  slice is a run-time panic; the model makes it the second error.
\<close>

datatype error = NoProvidersMatched | IndexOutOfRange

subsubsection \<open>The worker pool\<close>

text \<open>
  \<^verbatim>\<open>parallelFilterProviders\<close> and \<^verbatim>\<open>RankProviders\<close> run the same pool: a buffered channel
  \<^verbatim>\<open>tasks\<close> that holds the whole batch and is then closed, \<open>workerCount\<close> goroutines that
  each loop over \<^verbatim>\<open>tasks\<close> and send to the buffered channel \<^verbatim>\<open>results\<close>, a wait group
  that closes \<^verbatim>\<open>results\<close> once every worker has left its loop, and the caller, which
  appends what it receives from \<^verbatim>\<open>results\<close> until that channel is closed.

  A worker is \<open>Idle\<close> (at the head of its loop), \<open>Busy t\<close> (it has received \<open>t\<close> and not
  yet sent for it) or \<open>Done\<close> (it found \<^verbatim>\<open>tasks\<close> closed and empty, left the loop and called
  \<^verbatim>\<open>wg.Done\<close>). Both channels have the capacity of the batch, so no send blocks; the
  channel \<open>results\<close> of the model is what the caller has appended. Workers that start
  before the batch is queued only wait, so the batch is queued from the start.
  Which worker runs next is the scheduler's choice: \<open>pick\<close> chooses among the workers
  that have not left their loop, as it likes.
\<close>

datatype 'a worker = Idle | Busy 'a | Done

record ('a, 'b) pool =
  tasks :: "'a list"
  workers :: "'a worker list"
  results :: "'b list"

definition start_pool :: "nat \<Rightarrow> 'a list \<Rightarrow> ('a, 'b) pool" where
  "start_pool n batch = \<lparr>tasks = batch, workers = replicate n Idle, results = []\<rparr>"

text \<open>The workers still in their loop.\<close>

definition live :: "('a, 'b) pool \<Rightarrow> nat list" where
  "live st = filter (\<lambda>w. workers st ! w \<noteq> Done) [0..<length (workers st)]"

text \<open>One step of worker \<open>w\<close>: receive a task or find the channel closed, or send what the
  loop body sends for the task it holds (\<open>send t\<close>: nothing or one result).\<close>

definition worker_step :: "('a \<Rightarrow> 'b list) \<Rightarrow> nat \<Rightarrow> ('a, 'b) pool \<Rightarrow> ('a, 'b) pool" where
  "worker_step send w st =
     (case workers st ! w of
        Idle \<Rightarrow>
          (case tasks st of
             [] \<Rightarrow> st\<lparr>workers := (workers st)[w := Done]\<rparr>
           | t # ts \<Rightarrow> st\<lparr>tasks := ts, workers := (workers st)[w := Busy t]\<rparr>)
      | Busy t \<Rightarrow> st\<lparr>workers := (workers st)[w := Idle], results := results st @ send t\<rparr>
      | Done \<Rightarrow> st)"

text \<open>What is left to do: it decreases with every step of a worker that is in its loop.\<close>

fun worker_weight :: "'a worker \<Rightarrow> nat" where
  "worker_weight Idle = 1"
| "worker_weight (Busy t) = 2"
| "worker_weight Done = 0"

definition pool_measure :: "('a, 'b) pool \<Rightarrow> nat" where
  "pool_measure st = 3 * length (tasks st) + sum_list (map worker_weight (workers st))"

text \<open>The pool runs until every worker has left its loop; then \<^verbatim>\<open>results\<close> is closed and
  the caller has the slice it returns.\<close>

function run_pool ::
  "(('a, 'b) pool \<Rightarrow> nat) \<Rightarrow> ('a \<Rightarrow> 'b list) \<Rightarrow> ('a, 'b) pool \<Rightarrow> 'b list" where
  "run_pool pick send st =
     (if live st = [] then results st
      else run_pool pick send (worker_step send (live st ! (pick st mod length (live st))) st))"
  by pat_completeness auto
termination
proof (relation "measure (\<lambda>(pick, send, st). pool_measure st)")
  show "wf (measure (\<lambda>(pick, send, st). pool_measure st))" by simp
next
  fix pick :: "('a, 'b) pool \<Rightarrow> nat" and send :: "'a \<Rightarrow> 'b list" and st :: "('a, 'b) pool"
  assume "live st \<noteq> []"
  let ?w = "live st ! (pick st mod length (live st))"
  have upd: "i < length xs \<Longrightarrow>
      sum_list (map worker_weight (xs[i := v])) + worker_weight (xs ! i) =
      sum_list (map worker_weight xs) + worker_weight v"
    for xs :: "'a worker list" and i v
  proof (induction xs arbitrary: i)
    case Nil
    then show ?case by simp
  next
    case (Cons x xs)
    show ?case
    proof (cases i)
      case 0
      then show ?thesis by simp
    next
      case (Suc j)
      with Cons.prems have "j < length xs" by simp
      then have "sum_list (map worker_weight (xs[j := v])) + worker_weight (xs ! j) =
          sum_list (map worker_weight xs) + worker_weight v"
        by (rule Cons.IH)
      with Suc show ?thesis by simp
    qed
  qed
  from \<open>live st \<noteq> []\<close> have "?w \<in> set (live st)" by simp
  then have w: "?w < length (workers st)" and nd: "workers st ! ?w \<noteq> Done"
    by (simp_all add: live_def)
  have "pool_measure (worker_step send ?w st) < pool_measure st"
  proof (cases "workers st ! ?w")
    case Idle
    show ?thesis
    proof (cases "tasks st")
      case Nil
      with Idle upd[OF w, of Done] show ?thesis
        by (simp add: worker_step_def pool_measure_def)
    next
      case (Cons t ts)
      with Idle upd[OF w, of "Busy t"] show ?thesis
        by (simp add: worker_step_def pool_measure_def)
    qed
  next
    case (Busy t)
    with upd[OF w, of Idle] show ?thesis
      by (simp add: worker_step_def pool_measure_def)
  next
    case Done
    with nd show ?thesis by simp
  qed
  then show "((pick, send, worker_step send ?w st), (pick, send, st))
      \<in> measure (\<lambda>(pick, send, st). pool_measure st)"
    by simp
qed

declare run_pool.simps [simp del]

subsubsection \<open>Sorting\<close>

text \<open>
  \<^verbatim>\<open>sort.Slice\<close> is Go's standard library: it rearranges the slice in place so that no
  element is \<^verbatim>\<open>less\<close> than one before it, and it is not stable. The model is an insertion
  sort that asks \<open>tie\<close>, for two elements neither of which is less than the other, whether
  the first stays in front; \<open>tie\<close> is arbitrary, so the order of equal elements is.
\<close>

fun insert_by :: "('a \<Rightarrow> 'a \<Rightarrow> bool) \<Rightarrow> ('a \<Rightarrow> 'a \<Rightarrow> bool) \<Rightarrow> 'a \<Rightarrow> 'a list \<Rightarrow> 'a list" where
  "insert_by tie lt x [] = [x]"
| "insert_by tie lt x (y # ys) =
     (if lt y x \<or> (\<not> lt x y \<and> tie y x) then y # insert_by tie lt x ys else x # y # ys)"

fun sort_Slice :: "('a \<Rightarrow> 'a \<Rightarrow> bool) \<Rightarrow> ('a \<Rightarrow> 'a \<Rightarrow> bool) \<Rightarrow> 'a list \<Rightarrow> 'a list" where
  "sort_Slice tie lt [] = []"
| "sort_Slice tie lt (x # xs) = insert_by tie lt x (sort_Slice tie lt xs)"

subsubsection \<open>The operations\<close>

text \<open>What the code leaves to the Go runtime: the two schedulers and the order of equal
  elements after sorting. Nothing is assumed of them.\<close>

record runtime =
  filter_pick :: "(Provider, Provider) pool \<Rightarrow> nat"
  rank_pick :: "(Provider, PairingScore) pool \<Rightarrow> nat"
  sort_tie :: "PairingScore \<Rightarrow> PairingScore \<Rightarrow> bool"

text \<open>The comparison \<^verbatim>\<open>GetPairingList\<close> passes to \<^verbatim>\<open>sort.Slice\<close>: higher score first.\<close>

definition higher_first :: "PairingScore \<Rightarrow> PairingScore \<Rightarrow> bool" where
  "higher_first a b \<longleftrightarrow> Score a > Score b"

text \<open>The sequential path of \<^verbatim>\<open>FilterProviders\<close>: each filter's \<^verbatim>\<open>Apply\<close> in turn.\<close>

fun apply_filters :: "Filter list \<Rightarrow> Provider list \<Rightarrow> ConsumerPolicy \<Rightarrow> Provider list" where
  "apply_filters [] filtered policy = filtered"
| "apply_filters (f # fs) filtered policy = apply_filters fs (filter_Apply f filtered policy) policy"

text \<open>The inner loop of \<^verbatim>\<open>filterWorker\<close>: \<^verbatim>\<open>pass\<close> after the loop, which breaks at the first
  filter that rejects the provider.\<close>

fun filterWorker_pass :: "Filter list \<Rightarrow> Provider \<Rightarrow> ConsumerPolicy \<Rightarrow> bool" where
  "filterWorker_pass [] p policy = True"
| "filterWorker_pass (f # fs) p policy =
     (if \<not> filter_ApplySingle f p policy then False else filterWorker_pass fs p policy)"

text \<open>What \<^verbatim>\<open>filterWorker\<close> sends for a provider: the provider if it passes, else nothing.\<close>

definition filterWorker_send :: "pairingSystem \<Rightarrow> ConsumerPolicy \<Rightarrow> Provider \<Rightarrow> Provider list" where
  "filterWorker_send ps policy p = (if filterWorker_pass (filters ps) p policy then [p] else [])"

definition parallelFilterProviders ::
  "runtime \<Rightarrow> pairingSystem \<Rightarrow> Provider list \<Rightarrow> ConsumerPolicy \<Rightarrow> Provider list" where
  "parallelFilterProviders rt ps providers policy =
     run_pool (filter_pick rt) (filterWorker_send ps policy) (start_pool workerCount providers)"

definition FilterProviders ::
  "runtime \<Rightarrow> pairingSystem \<Rightarrow> Provider list \<Rightarrow> ConsumerPolicy \<Rightarrow> Provider list" where
  "FilterProviders rt ps providers policy =
     (if length providers = 0 then []
      else if length providers \<le> parallelFilterThreshold
      then apply_filters (filters ps) providers policy
      else parallelFilterProviders rt ps providers policy)"

text \<open>The loop of \<^verbatim>\<open>rankWorker\<close> over the scorers: it fills \<^verbatim>\<open>components\<close> and adds up
  \<^verbatim>\<open>totalScore\<close>.\<close>

fun score_loop ::
  "Scorer list \<Rightarrow> Provider \<Rightarrow> ConsumerPolicy \<Rightarrow> PreScoreContext \<Rightarrow>
   (string \<times> real) list \<Rightarrow> real \<Rightarrow> (string \<times> real) list \<times> real" where
  "score_loop [] p policy ctx components totalScore = (components, totalScore)"
| "score_loop (scorer # rest) p policy ctx components totalScore =
     (let s = scorer_Score scorer p policy ctx
      in score_loop rest p policy ctx (AList.update (scorer_Name scorer) s components) (totalScore + s))"

text \<open>The loop over \<^verbatim>\<open>components\<close> in weighted mode. Go visits the entries in an
  unspecified order; over the reals the sum does not depend on it.\<close>

fun weighted_loop :: "(string \<times> real) list \<Rightarrow> (string \<times> real) list \<Rightarrow> real \<Rightarrow> real" where
  "weighted_loop [] weights weightedSum = weightedSum"
| "weighted_loop ((name, scoreValue) # rest) weights weightedSum =
     (case map_of weights name of
        Some weight \<Rightarrow> weighted_loop rest weights (weightedSum + scoreValue * weight)
      | None \<Rightarrow> weighted_loop rest weights weightedSum)"

text \<open>The combination step of \<^verbatim>\<open>rankWorker\<close>, from \<^verbatim>\<open>finalScore := 0.0\<close> on.\<close>

definition combine :: "Scorer list \<Rightarrow> ConsumerPolicy \<Rightarrow> (string \<times> real) list \<Rightarrow> real \<Rightarrow> real" where
  "combine scs policy components totalScore =
     (if map_len (Weights policy) > 0 then weighted_loop components (Weights policy) 0
      else if length scs > 0 then totalScore / real (length scs)
      else 0)"

text \<open>One iteration of \<^verbatim>\<open>rankWorker\<close>: the record sent for provider \<open>p\<close>.\<close>

definition rankWorker_task ::
  "pairingSystem \<Rightarrow> ConsumerPolicy \<Rightarrow> PreScoreContext \<Rightarrow> Provider \<Rightarrow> PairingScore" where
  "rankWorker_task ps policy preScoreCtx p =
     (case score_loop (scorers ps) p policy preScoreCtx [] 0 of
        (components, totalScore) \<Rightarrow>
          \<lparr>Provider = p,
           Score = combine (scorers ps) policy components totalScore,
           Components = components\<rparr>)"

text \<open>The context \<^verbatim>\<open>RankProviders\<close> builds before it starts the workers.\<close>

definition preScoreCtx_of :: "Provider list \<Rightarrow> PreScoreContext" where
  "preScoreCtx_of providers =
     (let currentMaxStake = ComputeMaxStake providers;
          currentMaxStake = (if currentMaxStake = 0 then 1 else currentMaxStake);
          normalizedFees = ComputeNormalizedFees providers
      in \<lparr>MaxStake = currentMaxStake, AverageLatency = 0, NormalizedFees = normalizedFees\<rparr>)"

definition RankProviders ::
  "runtime \<Rightarrow> pairingSystem \<Rightarrow> Provider list \<Rightarrow> ConsumerPolicy \<Rightarrow> PairingScore list" where
  "RankProviders rt ps providers policy =
     (if length providers = 0 then []
      else run_pool (rank_pick rt)
             (\<lambda>p. [rankWorker_task ps policy (preScoreCtx_of providers) p])
             (start_pool workerCount providers))"

text \<open>The last loop of \<^verbatim>\<open>GetPairingList\<close>: it appends \<^verbatim>\<open>scored[i].Provider\<close> for
  \<open>i\<close> from 0 up to \<open>finalCount\<close>.\<close>

function select_top ::
  "nat \<Rightarrow> nat \<Rightarrow> PairingScore list \<Rightarrow> Provider list \<Rightarrow> error + Provider list" where
  "select_top i finalCount scored topProviders =
     (if i < finalCount
      then (if i < length scored
            then select_top (Suc i) finalCount scored (topProviders @ [Provider (scored ! i)])
            else Inl IndexOutOfRange)
      else Inr topProviders)"
  by pat_completeness auto
termination
  by (relation "measure (\<lambda>(i, finalCount, scored, topProviders). finalCount - i)") auto

declare select_top.simps [simp del]

definition GetPairingList ::
  "runtime \<Rightarrow> pairingSystem \<Rightarrow> Provider list \<Rightarrow> ConsumerPolicy \<Rightarrow> error + Provider list" where
  "GetPairingList rt ps providers policy =
     (let filtered = FilterProviders rt ps providers policy
      in if length filtered = 0
         then (if strictMode ps then Inl NoProvidersMatched else Inr [])
         else (let scored = RankProviders rt ps filtered policy;
                   scored = sort_Slice (sort_tie rt) higher_first scored;
                   finalCount = utils_Min topNProviders (length scored)
               in select_top 0 finalCount scored []))"

text \<open>
  The contract of a filter: \<^verbatim>\<open>Apply\<close> on a list returns the elements that
  \<^verbatim>\<open>ApplySingle\<close> accepts, in their order.
\<close>

definition consistent :: "Filter \<Rightarrow> bool" where
  "consistent f \<longleftrightarrow>
     (\<forall>xs policy. filter_Apply f xs policy = filter (\<lambda>p. filter_ApplySingle f p policy) xs)"

subsection \<open>Notions the statements use\<close>

text \<open>The raw outputs of the configured scorers for one provider, in the order of the
  scorers.\<close>

definition raw_outputs ::
  "Scorer list \<Rightarrow> Provider \<Rightarrow> ConsumerPolicy \<Rightarrow> PreScoreContext \<Rightarrow> real list" where
  "raw_outputs scs p policy ctx = map (\<lambda>s. scorer_Score s p policy ctx) scs"

text \<open>What one entry of \<^verbatim>\<open>components\<close> adds to \<^verbatim>\<open>weightedSum\<close>.\<close>

definition weighted_term :: "(string \<times> real) list \<Rightarrow> string \<times> real \<Rightarrow> real" where
  "weighted_term weights e = (case map_of weights (fst e) of Some w \<Rightarrow> snd e * w | None \<Rightarrow> 0)"

text \<open>Two entries of \<^verbatim>\<open>components\<close> agree when they have the same key and, if the
  key has a weight, the same value.\<close>

definition entries_agree :: "(string \<times> real) list \<Rightarrow> string \<times> real \<Rightarrow> string \<times> real \<Rightarrow> bool" where
  "entries_agree weights e e' \<longleftrightarrow>
     fst e' = fst e \<and> (fst e \<in> dom (map_of weights) \<longrightarrow> snd e' = snd e)"

text \<open>For the worker pool: what a worker still has to send, what the pool will have
  sent in the end, and the fact that a worker only leaves its loop when no task is left.\<close>

fun held :: "('a \<Rightarrow> 'b list) \<Rightarrow> 'a worker \<Rightarrow> 'b multiset" where
  "held send Idle = {#}"
| "held send (Busy t) = mset (send t)"
| "held send Done = {#}"

definition pending :: "('a \<Rightarrow> 'b list) \<Rightarrow> ('a, 'b) pool \<Rightarrow> 'b multiset" where
  "pending send st =
     mset (results st) + sum_list (map (\<lambda>t. mset (send t)) (tasks st)) +
     sum_list (map (held send) (workers st))"

definition drained :: "('a, 'b) pool \<Rightarrow> bool" where
  "drained st \<longleftrightarrow> (Done \<in> set (workers st) \<longrightarrow> tasks st = [])"

subsection \<open>Configuration and reference data (\<^verbatim>\<open>config.Init\<close>, \<^verbatim>\<open>internal/mock\<close>)\<close>

definition config_Init :: "bool \<Rightarrow> pairingSystem" where
  "config_Init strict =
     \<lparr>filters = [LocationFilter, FeatureFilter, StakeFilter],
      scorers = [StakeScore, FeatureScore, LocationScore, FeeScore],
      strictMode = strict\<rparr>"

definition mock_Providers :: "Provider list" where
  "mock_Providers =
     [\<lparr>ID = ''1'', Fee = 3, Address = ''provider1'', Stake = 1000, Location = ''US-West'',
       Features = [''featA'', ''featB'', ''featC'']\<rparr>,
      \<lparr>ID = ''2'', Fee = 15 / 1000, Address = ''provider2'', Stake = 2000, Location = ''US-East'',
       Features = [''featA'', ''featB'']\<rparr>,
      \<lparr>ID = ''3'', Fee = 45 / 10, Address = ''provider3'', Stake = 1500, Location = ''EU-Central'',
       Features = [''featA'', ''featC'', ''featD'']\<rparr>,
      \<lparr>ID = ''4'', Fee = 5 / 1000, Address = ''provider4'', Stake = 500, Location = ''US-West'',
       Features = [''featB'']\<rparr>,
      \<lparr>ID = ''5'', Fee = 8 / 10, Address = ''provider5'', Stake = 2500, Location = ''US-West'',
       Features = [''featA'', ''featB'', ''featC'', ''featExtra'']\<rparr>,
      \<lparr>ID = ''6'', Fee = 17 / 10, Address = ''provider6'', Stake = 1200, Location = ''EU-Central'',
       Features = [''featA'', ''featD'', ''featE'']\<rparr>,
      \<lparr>ID = ''7'', Fee = 2, Address = ''provider7'', Stake = 800, Location = ''US-East'',
       Features = [''featA'', ''featB'', ''featC'', ''featX'']\<rparr>,
      \<lparr>ID = ''8'', Fee = 25 / 10, Address = ''provider8'', Stake = 3000, Location = ''US-West'',
       Features = [''featA'', ''featB'', ''featC'', ''featY'', ''featZ'']\<rparr>]"

definition mock_ConsumerPolicy :: ConsumerPolicy where
  "mock_ConsumerPolicy =
     \<lparr>RequiredLocation = ''US-West'',
      RequiredFeatures = [''featA'', ''featB''],
      MinStake = 1000,
      Weights = [(''StakeScore'', 5 / 10), (''FeatureScore'', 3 / 10), (''LocationScore'', 2 / 10)]\<rparr>"

text \<open>Scenario C of the specification: the reference policy, asking for a location that no
  provider has.\<close>

definition antarctica_policy :: ConsumerPolicy where
  "antarctica_policy = mock_ConsumerPolicy\<lparr>RequiredLocation := ''Antarctica''\<rparr>"

text \<open>Scenario B of the specification: the reference policy without weights.\<close>

definition unweighted_policy :: ConsumerPolicy where
  "unweighted_policy = mock_ConsumerPolicy\<lparr>Weights := []\<rparr>"

text \<open>A system with no scorer at all.\<close>

definition no_scorers :: pairingSystem where
  "no_scorers = \<lparr>filters = [LocationFilter, FeatureFilter, StakeFilter], scorers = [], strictMode = True\<rparr>"

text \<open>Scenario D of the specification: a pool in which every provider has stake 0.\<close>

definition stakeless_pool :: "Provider list" where
  "stakeless_pool = [(mock_Providers ! 0)\<lparr>Stake := 0\<rparr>, (mock_Providers ! 4)\<lparr>Stake := 0\<rparr>]"

subsection \<open>A concrete runtime\<close>

text \<open>
  One runtime, used to run the model on concrete inputs. While tasks are queued the
  scheduler lets a fresh worker receive one; after that the workers send in the reverse
  order, so a batch of fewer than \<open>workerCount\<close> tasks is answered in reverse. Equal
  elements are sorted with the later one first.
\<close>

definition reversing_runtime :: runtime where
  "reversing_runtime =
     \<lparr>filter_pick = (\<lambda>st. length (tasks st)),
      rank_pick = (\<lambda>st. length (tasks st)),
      sort_tie = (\<lambda>a b. False)\<rparr>"

section \<open>Properties of the worker pool\<close>

lemma sum_list_map_update:
  fixes f :: "'a \<Rightarrow> 'c::comm_monoid_add"
  shows "i < length xs \<Longrightarrow>
    sum_list (map f (xs[i := v])) + f (xs ! i) = sum_list (map f xs) + f v"
proof (induction xs arbitrary: i)
  case Nil
  then show ?case by simp
next
  case (Cons x xs)
  show ?case
  proof (cases i)
    case 0
    then show ?thesis by (simp add: ac_simps)
  next
    case (Suc j)
    with Cons.prems have "j < length xs" by simp
    then have "sum_list (map f (xs[j := v])) + f (xs ! j) = sum_list (map f xs) + f v"
      by (rule Cons.IH)
    then have "f x + (sum_list (map f (xs[j := v])) + f (xs ! j)) = f x + (sum_list (map f xs) + f v)"
      by simp
    with Suc show ?thesis by (simp add: ac_simps)
  qed
qed

lemma live_bound: "w \<in> set (live st) \<Longrightarrow> w < length (workers st) \<and> workers st ! w \<noteq> Done"
  by (simp add: live_def)

lemma live_pick: "live st \<noteq> [] \<Longrightarrow> live st ! (n mod length (live st)) \<in> set (live st)"
  by simp

lemma worker_step_pending:
  assumes "w \<in> set (live st)"
  shows "pending send (worker_step send w st) = pending send st"
proof -
  from assms have w: "w < length (workers st)"
    using live_bound by blast
  note upd = sum_list_map_update[OF w, of "held send"]
  show ?thesis
  proof (cases "workers st ! w")
    case Idle
    show ?thesis
    proof (cases "tasks st")
      case Nil
      with Idle upd[of Done] show ?thesis
        by (simp add: worker_step_def pending_def)
    next
      case (Cons t ts)
      with Idle upd[of "Busy t"] show ?thesis
        by (simp add: worker_step_def pending_def)
    qed
  next
    case (Busy t)
    with upd[of Idle] have "mset (send t) + sum_list (map (held send) ((workers st)[w := Idle])) =
        sum_list (map (held send) (workers st))"
      by (simp add: add.commute)
    with Busy show ?thesis
      by (simp add: worker_step_def pending_def)
  next
    case Done
    then show ?thesis by (simp add: worker_step_def)
  qed
qed

lemma worker_step_drained:
  assumes "drained st" and "w \<in> set (live st)"
  shows "drained (worker_step send w st)"
proof -
  from assms(2) have w: "w < length (workers st)"
    using live_bound by blast
  show ?thesis
  proof (cases "workers st ! w")
    case Idle
    show ?thesis
    proof (cases "tasks st")
      case Nil
      with Idle show ?thesis by (simp add: worker_step_def drained_def)
    next
      case (Cons t ts)
      with assms(1) have "Done \<notin> set (workers st)" by (simp add: drained_def)
      then have "Done \<notin> set ((workers st)[w := Busy t])"
        using set_update_subset_insert[of "workers st" w "Busy t"] by auto
      with Idle Cons show ?thesis by (simp add: worker_step_def drained_def)
    qed
  next
    case (Busy t)
    have "set ((workers st)[w := Idle]) \<subseteq> insert Idle (set (workers st))"
      by (rule set_update_subset_insert)
    with assms(1) Busy show ?thesis
      by (auto simp: worker_step_def drained_def)
  next
    case Done
    with assms(1) show ?thesis by (simp add: worker_step_def)
  qed
qed

lemma length_workers_step: "length (workers (worker_step send w st)) = length (workers st)"
  by (simp add: worker_step_def split: worker.split list.split)

lemma live_empty_all_Done:
  assumes "live st = []"
  shows "\<forall>x \<in> set (workers st). x = Done"
proof
  fix x assume "x \<in> set (workers st)"
  then obtain i where i: "i < length (workers st)" and x: "workers st ! i = x"
    by (auto simp: in_set_conv_nth)
  from assms i have "workers st ! i = Done"
    by (auto simp: live_def filter_empty_conv)
  with x show "x = Done" by simp
qed

lemma sum_list_held_Done: "\<forall>x \<in> set ws. x = Done \<Longrightarrow> sum_list (map (held send) ws) = {#}"
  by (induction ws) simp_all

lemma run_pool_mset:
  "drained st \<Longrightarrow> workers st \<noteq> [] \<Longrightarrow> mset (run_pool pick send st) = pending send st"
proof (induction pick send st rule: run_pool.induct)
  case (1 pick send st)
  show ?case
  proof (cases "live st = []")
    case True
    then have all: "\<forall>x \<in> set (workers st). x = Done" by (rule live_empty_all_Done)
    with "1.prems"(2) have "Done \<in> set (workers st)"
      by (cases "workers st") auto
    with "1.prems"(1) have "tasks st = []" by (simp add: drained_def)
    with all True show ?thesis
      by (simp add: run_pool.simps[of pick send st] pending_def sum_list_held_Done)
  next
    case False
    let ?w = "live st ! (pick st mod length (live st))"
    from False have w: "?w \<in> set (live st)" by (rule live_pick)
    have "mset (run_pool pick send (worker_step send ?w st)) = pending send (worker_step send ?w st)"
    proof (rule "1.IH"[OF False])
      show "drained (worker_step send ?w st)"
        using "1.prems"(1) w by (rule worker_step_drained)
      show "workers (worker_step send ?w st) \<noteq> []"
        using "1.prems"(2) length_workers_step[of send ?w st] by (metis length_0_conv)
    qed
    with False w show ?thesis
      by (simp add: run_pool.simps[of pick send st] worker_step_pending)
  qed
qed

lemma sum_list_mset_concat: "sum_list (map (\<lambda>t. mset (send t)) batch) = mset (concat (map send batch))"
  by (induction batch) simp_all

lemma sum_list_replicate_empty: "sum_list (replicate n ({#} :: 'b multiset)) = {#}"
  by (induction n) simp_all

lemma run_pool_start:
  assumes "0 < n"
  shows "mset (run_pool pick send (start_pool n batch)) = mset (concat (map send batch))"
proof -
  have "drained (start_pool n batch)"
    by (simp add: drained_def start_pool_def)
  moreover have "workers (start_pool n batch) \<noteq> []"
    using assms by (simp add: start_pool_def)
  ultimately have "mset (run_pool pick send (start_pool n batch)) =
      pending send (start_pool n batch)"
    by (rule run_pool_mset)
  then show ?thesis
    by (simp add: pending_def start_pool_def sum_list_mset_concat sum_list_replicate_empty)
qed

text \<open>The workers are what sends: a pool without a worker returns nothing.\<close>

lemma run_pool_no_worker: "run_pool pick send (start_pool 0 batch) = []"
  by (subst run_pool.simps) (simp add: live_def start_pool_def)

section \<open>Properties of sorting and of the selection loop\<close>

lemma mset_insert_by: "mset (insert_by tie lt x xs) = add_mset x (mset xs)"
  by (induction xs) simp_all

lemma mset_sort_Slice: "mset (sort_Slice tie lt xs) = mset xs"
  by (induction xs) (simp_all add: mset_insert_by)

lemma length_sort_Slice: "length (sort_Slice tie lt xs) = length xs"
  using mset_sort_Slice[of tie lt xs] by (metis size_mset)

lemma set_insert_by: "set (insert_by tie lt x xs) = insert x (set xs)"
  by (induction xs) auto

lemma sorted_insert_by_higher_first:
  "sorted_wrt (\<lambda>a b. \<not> higher_first b a) xs \<Longrightarrow>
   sorted_wrt (\<lambda>a b. \<not> higher_first b a) (insert_by tie higher_first x xs)"
  by (induction xs) (auto simp: set_insert_by higher_first_def)

lemma sorted_sort_Slice_higher_first:
  "sorted_wrt (\<lambda>a b. \<not> higher_first b a) (sort_Slice tie higher_first xs)"
  by (induction xs) (simp_all add: sorted_insert_by_higher_first)

text \<open>
  The sort of the model can return every arrangement that \<^verbatim>\<open>sort.Slice\<close> may: every
  permutation of a slice of distinct elements in which no element is less than one
  before it is what \<open>sort_Slice\<close> returns for some \<open>tie\<close>.
\<close>

lemma insert_by_between:
  assumes "\<forall>a \<in> set as. lt a x \<or> (\<not> lt x a \<and> tie a x)"
    and "\<forall>b \<in> set bs. \<not> lt b x \<and> (lt x b \<or> \<not> tie b x)"
  shows "insert_by tie lt x (as @ bs) = as @ x # bs"
  using assms(1)
proof (induction as)
  case Nil
  show ?case
  proof (cases bs)
    case Nil
    then show ?thesis by simp
  next
    case (Cons b bs')
    with assms(2) have "\<not> lt b x \<and> (lt x b \<or> \<not> tie b x)" by simp
    with Cons show ?thesis by auto
  qed
next
  case (Cons a as)
  then show ?case by simp
qed

lemma sort_Slice_reaches:
  assumes "distinct zs" and "sorted_wrt (\<lambda>a b. \<not> lt b a) zs"
    and "distinct xs" and "set xs \<subseteq> set zs"
  shows "sort_Slice (\<lambda>y x. y \<in> set (takeWhile (\<lambda>z. z \<noteq> x) zs)) lt xs =
         filter (\<lambda>z. z \<in> set xs) zs"
  using assms(3,4)
proof (induction xs)
  case Nil
  then show ?case by simp
next
  case (Cons x xs)
  let ?tie = "\<lambda>y x. y \<in> set (takeWhile (\<lambda>z. z \<noteq> x) zs)"
  from Cons.prems have IH: "sort_Slice ?tie lt xs = filter (\<lambda>z. z \<in> set xs) zs"
    by (intro Cons.IH) simp_all
  from Cons.prems have "x \<in> set zs" by simp
  then obtain as bs where zs: "zs = as @ x # bs"
    by (auto dest: split_list)
  with assms(1) have xa: "x \<notin> set as" and xb: "x \<notin> set bs" and ab: "set as \<inter> set bs = {}"
    by auto
  from Cons.prems have xx: "x \<notin> set xs" by simp
  have tw: "takeWhile (\<lambda>z. z \<noteq> x) zs = as"
    unfolding zs using xa by (induction as) auto
  have before: "\<forall>a \<in> set as. \<not> lt x a"
    using assms(2) unfolding zs by (auto simp: sorted_wrt_append)
  have after: "\<forall>b \<in> set bs. \<not> lt b x"
    using assms(2) unfolding zs by (auto simp: sorted_wrt_append)
  have f: "filter (\<lambda>z. z \<in> set xs) zs =
      filter (\<lambda>z. z \<in> set xs) as @ filter (\<lambda>z. z \<in> set xs) bs"
    unfolding zs using xx by simp
  have "insert_by ?tie lt x (filter (\<lambda>z. z \<in> set xs) as @ filter (\<lambda>z. z \<in> set xs) bs) =
      filter (\<lambda>z. z \<in> set xs) as @ x # filter (\<lambda>z. z \<in> set xs) bs"
  proof (rule insert_by_between)
    show "\<forall>a \<in> set (filter (\<lambda>z. z \<in> set xs) as). lt a x \<or> (\<not> lt x a \<and> ?tie a x)"
      using before by (simp add: tw)
    show "\<forall>b \<in> set (filter (\<lambda>z. z \<in> set xs) bs). \<not> lt b x \<and> (lt x b \<or> \<not> ?tie b x)"
      using after ab by (auto simp: tw)
  qed
  moreover have "filter (\<lambda>z. z \<in> set (x # xs)) zs =
      filter (\<lambda>z. z \<in> set xs) as @ x # filter (\<lambda>z. z \<in> set xs) bs"
  proof -
    have "filter (\<lambda>z. z \<in> set (x # xs)) as = filter (\<lambda>z. z \<in> set xs) as"
      using xa by (intro filter_cong) auto
    moreover have "filter (\<lambda>z. z \<in> set (x # xs)) bs = filter (\<lambda>z. z \<in> set xs) bs"
      using xb by (intro filter_cong) auto
    ultimately show ?thesis unfolding zs by simp
  qed
  ultimately show ?case
    by (simp only: sort_Slice.simps IH f)
qed

lemma sort_Slice_complete:
  assumes "distinct xs" and "mset zs = mset xs" and "sorted_wrt (\<lambda>a b. \<not> lt b a) zs"
  shows "\<exists>tie. sort_Slice tie lt xs = zs"
proof -
  from assms(1,2) have d: "distinct zs" by (metis mset_eq_imp_distinct_iff)
  from assms(2) have s: "set xs = set zs" by (metis mset_eq_setD)
  have "sort_Slice (\<lambda>y x. y \<in> set (takeWhile (\<lambda>z. z \<noteq> x) zs)) lt xs =
         filter (\<lambda>z. z \<in> set xs) zs"
    using d assms(3) assms(1) s by (intro sort_Slice_reaches) simp_all
  also have "\<dots> = zs" using s by simp
  finally show ?thesis by blast
qed

lemma select_top_take:
  "finalCount \<le> length scored \<Longrightarrow> i \<le> finalCount \<Longrightarrow>
   select_top i finalCount scored topProviders =
     Inr (topProviders @ map Provider (take (finalCount - i) (drop i scored)))"
proof (induction i finalCount scored topProviders rule: select_top.induct)
  case (1 i finalCount scored topProviders)
  show ?case
  proof (cases "i < finalCount")
    case True
    with "1.prems" have il: "i < length scored" by simp
    from True have step: "finalCount - i = Suc (finalCount - Suc i)" by simp
    have "select_top (Suc i) finalCount scored (topProviders @ [Provider (scored ! i)]) =
        Inr ((topProviders @ [Provider (scored ! i)]) @
             map Provider (take (finalCount - Suc i) (drop (Suc i) scored)))"
      using True il "1.prems"(1) by (intro "1.IH") simp_all
    moreover have "drop i scored = scored ! i # drop (Suc i) scored"
      using il by (rule Cons_nth_drop_Suc[symmetric])
    ultimately show ?thesis
      using True il by (subst select_top.simps) (simp add: step)
  next
    case False
    with "1.prems" show ?thesis
      by (subst select_top.simps) simp
  qed
qed

text \<open>With a bound beyond the end of the slice the loop faults: the bound has to be the
  minimum that \<^verbatim>\<open>utils.Min\<close> computes.\<close>

lemma select_top_overrun:
  "length scored < finalCount \<Longrightarrow> i \<le> length scored \<Longrightarrow>
   select_top i finalCount scored topProviders = Inl IndexOutOfRange"
proof (induction i finalCount scored topProviders rule: select_top.induct)
  case (1 i finalCount scored topProviders)
  show ?case
  proof (cases "i < length scored")
    case True
    with "1.prems" have "i < finalCount" by simp
    moreover have "select_top (Suc i) finalCount scored (topProviders @ [Provider (scored ! i)]) =
        Inl IndexOutOfRange"
      using True \<open>i < finalCount\<close> "1.prems"(1) by (intro "1.IH") simp_all
    ultimately show ?thesis
      using True by (subst select_top.simps) simp
  next
    case False
    with "1.prems" show ?thesis
      by (subst select_top.simps) simp
  qed
qed

section \<open>Properties of the filters\<close>

lemma LocationFilter_Apply_filter:
  "LocationFilter_Apply xs policy = filter (\<lambda>p. LocationFilter_ApplySingle p policy) xs"
  by (induction xs) (simp_all add: LocationFilter_ApplySingle_def)

lemma FeatureFilter_loop_filter:
  "FeatureFilter_loop req xs = filter (\<lambda>p. has_all_required req (Features p)) xs"
  by (induction xs) simp_all

lemma FeatureFilter_Apply_filter:
  "FeatureFilter_Apply xs policy = filter (\<lambda>p. FeatureFilter_ApplySingle p policy) xs"
  by (simp add: FeatureFilter_Apply_def FeatureFilter_ApplySingle_def FeatureFilter_loop_filter)

lemma StakeFilter_Apply_filter:
  "StakeFilter_Apply xs policy = filter (\<lambda>p. StakeFilter_ApplySingle p policy) xs"
  by (induction xs) (simp_all add: StakeFilter_ApplySingle_def)

lemma consistent_LocationFilter: "consistent LocationFilter"
  by (simp add: consistent_def LocationFilter_def LocationFilter_Apply_filter)

lemma consistent_FeatureFilter: "consistent FeatureFilter"
  by (simp add: consistent_def FeatureFilter_def FeatureFilter_Apply_filter)

lemma consistent_StakeFilter: "consistent StakeFilter"
  by (simp add: consistent_def StakeFilter_def StakeFilter_Apply_filter)

lemma apply_filters_filter:
  "\<forall>f \<in> set fs. consistent f \<Longrightarrow>
   apply_filters fs xs policy = filter (\<lambda>p. \<forall>f \<in> set fs. filter_ApplySingle f p policy) xs"
proof (induction fs arbitrary: xs)
  case Nil
  then show ?case by simp
next
  case (Cons f fs)
  from Cons.prems have f: "filter_Apply f xs policy = filter (\<lambda>p. filter_ApplySingle f p policy) xs"
    by (simp add: consistent_def)
  from Cons.prems have "\<forall>g \<in> set fs. consistent g" by simp
  then have "apply_filters fs (filter_Apply f xs policy) policy =
      filter (\<lambda>p. \<forall>g \<in> set fs. filter_ApplySingle g p policy) (filter_Apply f xs policy)"
    by (rule Cons.IH)
  then show ?case by (simp add: f conj_commute)
qed

lemma filterWorker_pass_iff:
  "filterWorker_pass fs p policy \<longleftrightarrow> (\<forall>f \<in> set fs. filter_ApplySingle f p policy)"
  by (induction fs) auto

lemma feature_found_iff: "feature_found req fs \<longleftrightarrow> req \<in> set fs"
  by (induction fs) auto

lemma has_all_required_iff: "has_all_required reqs fs \<longleftrightarrow> set reqs \<subseteq> set fs"
  by (induction reqs) (auto simp: feature_found_iff)

lemma workerCount_pos: "0 < workerCount"
  by (simp add: workerCount_def)

lemma concat_filterWorker_send:
  "concat (map (filterWorker_send ps policy) providers) =
     filter (\<lambda>p. filterWorker_pass (filters ps) p policy) providers"
  by (induction providers) (simp_all add: filterWorker_send_def)

lemma mset_parallelFilterProviders:
  "mset (parallelFilterProviders rt ps providers policy) =
     mset (filter (\<lambda>p. filterWorker_pass (filters ps) p policy) providers)"
  unfolding parallelFilterProviders_def
  using run_pool_start[OF workerCount_pos, of "filter_pick rt" "filterWorker_send ps policy" providers]
  by (simp only: concat_filterWorker_send)

lemma FilterProviders_mset:
  assumes "\<forall>f \<in> set (filters ps). consistent f"
  shows "mset (FilterProviders rt ps providers policy) =
         mset (filter (\<lambda>p. \<forall>f \<in> set (filters ps). filter_ApplySingle f p policy) providers)"
proof -
  have "mset (parallelFilterProviders rt ps providers policy) =
         mset (filter (\<lambda>p. \<forall>f \<in> set (filters ps). filter_ApplySingle f p policy) providers)"
    by (simp add: mset_parallelFilterProviders filterWorker_pass_iff)
  then show ?thesis
    using assms by (simp add: FilterProviders_def apply_filters_filter)
qed

lemma FilterProviders_sequential:
  assumes "\<forall>f \<in> set (filters ps). consistent f" and "length providers \<le> parallelFilterThreshold"
  shows "FilterProviders rt ps providers policy =
         filter (\<lambda>p. \<forall>f \<in> set (filters ps). filter_ApplySingle f p policy) providers"
  using assms by (simp add: FilterProviders_def apply_filters_filter)


section \<open>Properties of ranking and selection\<close>

lemma sorted_higher_first_unique:
  "sorted_wrt higher_first ys \<Longrightarrow> mset xs = mset ys \<Longrightarrow>
   sorted_wrt (\<lambda>a b. \<not> higher_first b a) xs \<Longrightarrow> xs = ys"
proof (induction ys arbitrary: xs)
  case Nil
  then show ?case by simp
next
  case (Cons y ys)
  from Cons.prems(2) obtain x xs' where xs: "xs = x # xs'"
    by (cases xs) auto
  have top: "\<forall>z \<in> set ys. Score y > Score z"
    using Cons.prems(1) by (simp add: higher_first_def)
  have low: "\<forall>z \<in> set xs'. Score z \<le> Score x"
    using Cons.prems(3) xs by (auto simp: higher_first_def)
  have sets: "set xs = set (y # ys)"
    using Cons.prems(2) by (metis mset_eq_setD)
  have "x = y"
  proof (rule ccontr)
    assume neq: "x \<noteq> y"
    with sets xs have "x \<in> set ys" and "y \<in> set xs'" by auto
    with top low show False by force
  qed
  have "sorted_wrt higher_first ys" using Cons.prems(1) by simp
  moreover from \<open>x = y\<close> Cons.prems(2) xs have "mset xs' = mset ys" by simp
  moreover have "sorted_wrt (\<lambda>a b. \<not> higher_first b a) xs'" using Cons.prems(3) xs by simp
  ultimately have "xs' = ys" by (rule Cons.IH)
  with \<open>x = y\<close> xs show ?case by simp
qed

lemma mset_RankProviders:
  "mset (RankProviders rt ps providers policy) =
     mset (map (rankWorker_task ps policy (preScoreCtx_of providers)) providers)"
proof (cases "length providers = 0")
  case True
  then show ?thesis by (simp add: RankProviders_def)
next
  case False
  let ?task = "rankWorker_task ps policy (preScoreCtx_of providers)"
  have "concat (map (\<lambda>p. [?task p]) providers) = map ?task providers"
    by (induction providers) simp_all
  with run_pool_start[OF workerCount_pos, of "rank_pick rt" "\<lambda>p. [?task p]" providers]
  have "mset (run_pool (rank_pick rt) (\<lambda>p. [?task p]) (start_pool workerCount providers)) =
      mset (map ?task providers)"
    by (simp only:)
  with False show ?thesis by (simp add: RankProviders_def)
qed

lemma length_RankProviders:
  "length (RankProviders rt ps providers policy) = length providers"
  using mset_RankProviders[of rt ps providers policy] by (metis length_map size_mset)

lemma Provider_rankWorker_task: "Provider (rankWorker_task ps policy ctx p) = p"
  by (simp add: rankWorker_task_def split: prod.split)

lemma utils_Min_min: "utils_Min a b = min a b"
  by (simp add: utils_Min_def min_def)

lemma mock_filtered:
  "FilterProviders rt (config_Init strict) mock_Providers mock_ConsumerPolicy =
     [mock_Providers ! 0, mock_Providers ! 4, mock_Providers ! 7]"
  by (simp add: FilterProviders_def config_Init_def mock_Providers_def mock_ConsumerPolicy_def
      parallelFilterThreshold_def LocationFilter_def FeatureFilter_def StakeFilter_def
      FeatureFilter_Apply_def required_keys_def)

lemma mock_ctx:
  "preScoreCtx_of [mock_Providers ! 0, mock_Providers ! 4, mock_Providers ! 7] =
     \<lparr>MaxStake = 3000, AverageLatency = 0,
      NormalizedFees = [''1'' \<mapsto> 1, ''5'' \<mapsto> 8 / 30, ''8'' \<mapsto> 25 / 30]\<rparr>"
  by (simp add: preScoreCtx_of_def ComputeMaxStake_def ComputeNormalizedFees_def mock_Providers_def)

lemmas mock_eval =
  rankWorker_task_def config_Init_def mock_Providers_def mock_ConsumerPolicy_def combine_def
  map_len_def Let_def StakeScore_def FeatureScore_def LocationScore_def FeeScore_def StakeScore_Score_def
  FeatureScore_Score_def LocationScore_Score_def FeeScore_Score_def EqualFold_def

lemma mock_score_8:
  "Score (rankWorker_task (config_Init strict) mock_ConsumerPolicy
     (preScoreCtx_of [mock_Providers ! 0, mock_Providers ! 4, mock_Providers ! 7])
     (mock_Providers ! 7)) = 88 / 100"
  unfolding mock_ctx by (simp add: mock_eval)

lemma mock_score_5:
  "Score (rankWorker_task (config_Init strict) mock_ConsumerPolicy
     (preScoreCtx_of [mock_Providers ! 0, mock_Providers ! 4, mock_Providers ! 7])
     (mock_Providers ! 4)) = 23 / 30"
  unfolding mock_ctx by (simp add: mock_eval)

lemma mock_score_1:
  "Score (rankWorker_task (config_Init strict) mock_ConsumerPolicy
     (preScoreCtx_of [mock_Providers ! 0, mock_Providers ! 4, mock_Providers ! 7])
     (mock_Providers ! 0)) = 7 / 15"
  unfolding mock_ctx by (simp add: mock_eval)

lemma GetPairingList_nonempty:
  assumes "FilterProviders rt ps providers policy \<noteq> []"
  shows "GetPairingList rt ps providers policy =
     Inr (map Provider (take (min topNProviders
        (length (sort_Slice (sort_tie rt) higher_first
           (RankProviders rt ps (FilterProviders rt ps providers policy) policy))))
        (sort_Slice (sort_tie rt) higher_first
           (RankProviders rt ps (FilterProviders rt ps providers policy) policy))))"
proof -
  let ?scored = "sort_Slice (sort_tie rt) higher_first
           (RankProviders rt ps (FilterProviders rt ps providers policy) policy)"
  have "select_top 0 (min topNProviders (length ?scored)) ?scored [] =
      Inr ([] @ map Provider (take (min topNProviders (length ?scored) - 0) (drop 0 ?scored)))"
    by (rule select_top_take) simp_all
  with assms show ?thesis
    by (simp add: GetPairingList_def Let_def utils_Min_min)
qed

lemma mock_pairing:
  "GetPairingList rt (config_Init strict) mock_Providers mock_ConsumerPolicy =
         Inr [mock_Providers ! 7, mock_Providers ! 4, mock_Providers ! 0]"
proof -
  let ?ps = "config_Init strict"
  let ?filtered = "[mock_Providers ! 0, mock_Providers ! 4, mock_Providers ! 7]"
  let ?task = "rankWorker_task ?ps mock_ConsumerPolicy (preScoreCtx_of ?filtered)"
  let ?scored = "RankProviders rt ?ps ?filtered mock_ConsumerPolicy"
  let ?sorted = "sort_Slice (sort_tie rt) higher_first ?scored"
  let ?ys = "[?task (mock_Providers ! 7), ?task (mock_Providers ! 4), ?task (mock_Providers ! 0)]"
  have "mset ?scored = mset (map ?task ?filtered)"
    by (rule mset_RankProviders)
  moreover have "mset ?sorted = mset ?scored"
    by (rule mset_sort_Slice)
  ultimately have m: "mset ?sorted = mset ?ys" by simp
  have s: "sorted_wrt (\<lambda>a b. \<not> higher_first b a) ?sorted"
    by (rule sorted_sort_Slice_higher_first)
  have d: "sorted_wrt higher_first ?ys"
    by (simp add: higher_first_def mock_score_8 mock_score_5 mock_score_1)
  have eq: "?sorted = ?ys"
    using d m s by (rule sorted_higher_first_unique)
  have ne: "FilterProviders rt ?ps mock_Providers mock_ConsumerPolicy \<noteq> []"
    by (simp add: mock_filtered)
  show ?thesis
    unfolding GetPairingList_nonempty[OF ne] mock_filtered eq
    by (simp add: topNProviders_def Provider_rankWorker_task)
qed

section \<open>The reference data\<close>

lemma config_filters_subset:
  "set (filters (config_Init strict)) \<subseteq> {LocationFilter, FeatureFilter, StakeFilter}"
  by (simp add: config_Init_def)

lemma mock_5_passes:
  "filter_ApplySingle LocationFilter (mock_Providers ! 4) mock_ConsumerPolicy \<and>
   filter_ApplySingle FeatureFilter (mock_Providers ! 4) mock_ConsumerPolicy \<and>
   filter_ApplySingle StakeFilter (mock_Providers ! 4) mock_ConsumerPolicy"
  by (simp add: LocationFilter_def FeatureFilter_def StakeFilter_def LocationFilter_ApplySingle_def
      FeatureFilter_ApplySingle_def StakeFilter_ApplySingle_def required_keys_def
      mock_Providers_def mock_ConsumerPolicy_def)

lemma mock_2_fails:
  "\<not> filter_ApplySingle LocationFilter (mock_Providers ! 1) mock_ConsumerPolicy"
  by (simp add: LocationFilter_def LocationFilter_ApplySingle_def
      mock_Providers_def mock_ConsumerPolicy_def)

lemma antarctica_filtered:
  "FilterProviders rt (config_Init strict) mock_Providers antarctica_policy = []"
  by (simp add: FilterProviders_def config_Init_def mock_Providers_def mock_ConsumerPolicy_def
      antarctica_policy_def parallelFilterThreshold_def LocationFilter_def FeatureFilter_def
      StakeFilter_def FeatureFilter_Apply_def required_keys_def)

lemma EqualFold_refl: "EqualFold s s"
  by (simp add: EqualFold_def)

section \<open>Properties of the scoring loop and the combiner\<close>

lemma snd_score_loop:
  "snd (score_loop scs p policy ctx components totalScore) =
     totalScore + sum_list (raw_outputs scs p policy ctx)"
  by (induction scs arbitrary: components totalScore) (simp_all add: raw_outputs_def Let_def)

lemma keys_score_loop:
  "fst ` set (fst (score_loop scs p policy ctx components totalScore)) =
     fst ` set components \<union> scorer_Name ` set scs"
  by (induction scs arbitrary: components totalScore) (auto simp: Let_def AList.dom_update)

lemma distinct_score_loop:
  "distinct (map fst components) \<Longrightarrow>
   distinct (map fst (fst (score_loop scs p policy ctx components totalScore)))"
  by (induction scs arbitrary: components totalScore) (simp_all add: Let_def AList.distinct_update)

lemma update_fresh: "k \<notin> fst ` set al \<Longrightarrow> AList.update k v al = al @ [(k, v)]"
  by (induction al) auto

lemma fst_score_loop_distinct:
  "distinct (map fst components @ map scorer_Name scs) \<Longrightarrow>
   fst (score_loop scs p policy ctx components totalScore) =
     components @ map (\<lambda>s. (scorer_Name s, scorer_Score s p policy ctx)) scs"
proof (induction scs arbitrary: components totalScore)
  case Nil
  then show ?case by simp
next
  case (Cons s scs)
  from Cons.prems have fresh: "scorer_Name s \<notin> fst ` set components"
    by auto
  let ?c = "components @ [(scorer_Name s, scorer_Score s p policy ctx)]"
  from Cons.prems have "distinct (map fst ?c @ map scorer_Name scs)"
    by auto
  then have "fst (score_loop scs p policy ctx ?c (totalScore + scorer_Score s p policy ctx)) =
      ?c @ map (\<lambda>s. (scorer_Name s, scorer_Score s p policy ctx)) scs"
    by (rule Cons.IH)
  then show ?case
    by (simp add: Let_def update_fresh[OF fresh])
qed

lemma weighted_loop_sum:
  "weighted_loop components weights weightedSum =
     weightedSum + sum_list (map (weighted_term weights) components)"
  by (induction components arbitrary: weightedSum)
     (auto simp: weighted_term_def split: option.split)

lemma weighted_sum_filter:
  "sum_list (map (weighted_term weights) (map (\<lambda>s. (scorer_Name s, f s)) scs)) =
   (\<Sum>s \<leftarrow> filter (\<lambda>s. scorer_Name s \<in> dom (map_of weights)) scs.
       f s * the (map_of weights (scorer_Name s)))"
  by (induction scs) (auto simp: weighted_term_def split: option.split)

lemma Score_rankWorker_task:
  "Score (rankWorker_task ps policy ctx p) =
     combine (scorers ps) policy (fst (score_loop (scorers ps) p policy ctx [] 0))
       (snd (score_loop (scorers ps) p policy ctx [] 0))"
  by (simp add: rankWorker_task_def split: prod.split)

lemma Components_rankWorker_task:
  "Components (rankWorker_task ps policy ctx p) = fst (score_loop (scorers ps) p policy ctx [] 0)"
  by (simp add: rankWorker_task_def split: prod.split)

lemma Score_average:
  assumes "map_len (Weights policy) = 0"
  shows "Score (rankWorker_task ps policy ctx p) =
     (if scorers ps = [] then 0
      else sum_list (raw_outputs (scorers ps) p policy ctx) / real (length (scorers ps)))"
  using assms by (simp add: Score_rankWorker_task combine_def snd_score_loop)

lemma Score_weighted:
  assumes "map_len (Weights policy) > 0" and "distinct (map scorer_Name (scorers ps))"
  shows "Score (rankWorker_task ps policy ctx p) =
     (\<Sum>s \<leftarrow> filter (\<lambda>s. scorer_Name s \<in> dom (map_of (Weights policy))) (scorers ps).
        scorer_Score s p policy ctx * the (map_of (Weights policy) (scorer_Name s)))"
proof -
  have "fst (score_loop (scorers ps) p policy ctx [] 0) =
      map (\<lambda>s. (scorer_Name s, scorer_Score s p policy ctx)) (scorers ps)"
    using fst_score_loop_distinct[of "[]" "scorers ps" p policy ctx 0] assms(2) by simp
  then show ?thesis
    using assms(1)
    by (simp add: Score_rankWorker_task combine_def weighted_loop_sum weighted_sum_filter del: map_map)
qed

lemma set_RankProviders:
  "set (RankProviders rt ps providers policy) =
     rankWorker_task ps policy (preScoreCtx_of providers) ` set providers"
  using mset_RankProviders[of rt ps providers policy, THEN mset_eq_setD] by simp

lemma in_RankProviders:
  assumes "r \<in> set (RankProviders rt ps providers policy)"
  shows "r = rankWorker_task ps policy (preScoreCtx_of providers) (Provider r)"
proof -
  from assms obtain p where "r = rankWorker_task ps policy (preScoreCtx_of providers) p"
    unfolding set_RankProviders by (rule imageE)
  moreover from this have "Provider r = p"
    by (simp add: Provider_rankWorker_task)
  ultimately show ?thesis by simp
qed

lemma update_agree:
  "list_all2 (entries_agree weights) comps comps' \<Longrightarrow>
   (k \<in> dom (map_of weights) \<longrightarrow> v' = v) \<Longrightarrow>
   list_all2 (entries_agree weights) (AList.update k v comps) (AList.update k v' comps')"
proof (induction comps comps' rule: list_all2_induct)
  case Nil
  then show ?case by (simp add: entries_agree_def)
next
  case (Cons e comps e' comps')
  have head: "entries_agree weights (k, v) (k, v')"
    using Cons.prems by (simp add: entries_agree_def)
  have key: "fst e' = fst e"
    using Cons.hyps(1) by (simp add: entries_agree_def)
  have rest: "list_all2 (entries_agree weights) (AList.update k v comps) (AList.update k v' comps')"
    using Cons.prems by (rule Cons.IH)
  show ?case
    using head key rest Cons.hyps(1) Cons.hyps(2) by simp
qed

lemma score_loop_agree:
  "list_all2 (\<lambda>s s'. scorer_Name s' = scorer_Name s \<and>
        (scorer_Name s \<in> dom (map_of weights) \<longrightarrow>
           scorer_Score s' p' policy' ctx' = scorer_Score s p policy ctx)) scs scs' \<Longrightarrow>
   list_all2 (entries_agree weights) comps comps' \<Longrightarrow>
   list_all2 (entries_agree weights)
     (fst (score_loop scs p policy ctx comps tot))
     (fst (score_loop scs' p' policy' ctx' comps' tot'))"
proof (induction scs scs' arbitrary: comps comps' tot tot' rule: list_all2_induct)
  case Nil
  then show ?case by simp
next
  case (Cons s scs s' scs')
  from Cons.hyps(1) have n: "scorer_Name s' = scorer_Name s"
    and v: "scorer_Name s \<in> dom (map_of weights) \<longrightarrow>
           scorer_Score s' p' policy' ctx' = scorer_Score s p policy ctx"
    by simp_all
  have "list_all2 (entries_agree weights)
      (AList.update (scorer_Name s) (scorer_Score s p policy ctx) comps)
      (AList.update (scorer_Name s) (scorer_Score s' p' policy' ctx') comps')"
    using Cons.prems v by (rule update_agree)
  then have "list_all2 (entries_agree weights)
     (fst (score_loop scs p policy ctx
        (AList.update (scorer_Name s) (scorer_Score s p policy ctx) comps)
        (tot + scorer_Score s p policy ctx)))
     (fst (score_loop scs' p' policy' ctx'
        (AList.update (scorer_Name s) (scorer_Score s' p' policy' ctx') comps')
        (tot' + scorer_Score s' p' policy' ctx')))"
    by (rule Cons.IH)
  then show ?case by (simp add: Let_def n)
qed

lemma weighted_term_agree:
  "entries_agree weights e e' \<Longrightarrow> weighted_term weights e' = weighted_term weights e"
  by (auto simp: entries_agree_def weighted_term_def split: option.split)

lemma weighted_sum_agree:
  "list_all2 (entries_agree weights) comps comps' \<Longrightarrow>
   sum_list (map (weighted_term weights) comps') = sum_list (map (weighted_term weights) comps)"
  by (induction comps comps' rule: list_all2_induct) (simp_all add: weighted_term_agree)

lemma Score_weighted_agree:
  assumes "map_len (Weights policy) > 0"
    and "list_all2 (\<lambda>s s'. scorer_Name s' = scorer_Name s \<and>
        (scorer_Name s \<in> dom (map_of (Weights policy)) \<longrightarrow>
           scorer_Score s' p' policy ctx' = scorer_Score s p policy ctx)) (scorers ps) (scorers ps')"
  shows "Score (rankWorker_task ps' policy ctx' p') = Score (rankWorker_task ps policy ctx p)"
proof -
  have "list_all2 (entries_agree (Weights policy))
     (fst (score_loop (scorers ps) p policy ctx [] 0))
     (fst (score_loop (scorers ps') p' policy ctx' [] 0))"
    using assms(2) by (rule score_loop_agree) simp
  then have "sum_list (map (weighted_term (Weights policy))
        (fst (score_loop (scorers ps') p' policy ctx' [] 0))) =
      sum_list (map (weighted_term (Weights policy))
        (fst (score_loop (scorers ps) p policy ctx [] 0)))"
    by (rule weighted_sum_agree)
  then show ?thesis
    using assms(1) by (simp add: Score_rankWorker_task combine_def weighted_loop_sum)
qed

lemma component_of_scorer:
  assumes "distinct (map scorer_Name (scorers ps))" and "s \<in> set (scorers ps)"
  shows "map_of (Components (rankWorker_task ps policy ctx p)) (scorer_Name s) =
         Some (scorer_Score s p policy ctx)"
proof -
  let ?entries = "map (\<lambda>s. (scorer_Name s, scorer_Score s p policy ctx)) (scorers ps)"
  have c: "Components (rankWorker_task ps policy ctx p) = ?entries"
    using fst_score_loop_distinct[of "[]" "scorers ps" p policy ctx 0] assms(1)
    by (simp add: Components_rankWorker_task)
  have "map fst ?entries = map scorer_Name (scorers ps)" by (simp add: comp_def)
  with assms(1) have d: "distinct (map fst ?entries)" by (simp only:)
  have m: "(scorer_Name s, scorer_Score s p policy ctx) \<in> set ?entries"
    using assms(2) by auto
  show ?thesis
    unfolding c using d m by (rule map_of_is_SomeI)
qed

lemma set_RankProviders_providers:
  assumes "r \<in> set (RankProviders rt ps providers policy)"
  shows "Provider r \<in> set providers"
proof -
  from assms obtain p where p: "p \<in> set providers"
    and r: "r = rankWorker_task ps policy (preScoreCtx_of providers) p"
    unfolding set_RankProviders by (rule imageE)
  have "Provider r = p"
    unfolding r by (rule Provider_rankWorker_task)
  with p show ?thesis by simp
qed

section \<open>Bounds on the scorers\<close>

lemma max_stake_loop_ge: "m \<le> max_stake_loop xs m"
proof (induction xs arbitrary: m)
  case Nil
  then show ?case by simp
next
  case (Cons x xs)
  have "m \<le> (if Stake x > m then Stake x else m)" by simp
  also have "\<dots> \<le> max_stake_loop xs (if Stake x > m then Stake x else m)" by (rule Cons.IH)
  finally show ?case by simp
qed

lemma max_stake_loop_bound: "q \<in> set xs \<Longrightarrow> Stake q \<le> max_stake_loop xs m"
proof (induction xs arbitrary: m)
  case Nil
  then show ?case by simp
next
  case (Cons x xs)
  show ?case
  proof (cases "q = x")
    case True
    have "Stake x \<le> (if Stake x > m then Stake x else m)" by simp
    also have "\<dots> \<le> max_stake_loop xs (if Stake x > m then Stake x else m)"
      by (rule max_stake_loop_ge)
    finally show ?thesis using True by simp
  next
    case False
    with Cons.prems have "q \<in> set xs" by simp
    then show ?thesis using Cons.IH by simp
  qed
qed

lemma max_fee_loop_ge: "m \<le> max_fee_loop xs m"
proof (induction xs arbitrary: m)
  case Nil
  then show ?case by simp
next
  case (Cons x xs)
  have "m \<le> (if Fee x > m then Fee x else m)" by simp
  also have "\<dots> \<le> max_fee_loop xs (if Fee x > m then Fee x else m)" by (rule Cons.IH)
  finally show ?case by simp
qed

lemma max_fee_loop_bound: "q \<in> set xs \<Longrightarrow> Fee q \<le> max_fee_loop xs m"
proof (induction xs arbitrary: m)
  case Nil
  then show ?case by simp
next
  case (Cons x xs)
  show ?case
  proof (cases "q = x")
    case True
    have "Fee x \<le> (if Fee x > m then Fee x else m)" by simp
    also have "\<dots> \<le> max_fee_loop xs (if Fee x > m then Fee x else m)"
      by (rule max_fee_loop_ge)
    finally show ?thesis using True by simp
  next
    case False
    with Cons.prems have "q \<in> set xs" by simp
    then show ?thesis using Cons.IH by simp
  qed
qed

lemma normalize_loop_Some:
  "normalize_loop xs maxFee m k = Some v \<Longrightarrow>
   m k = Some v \<or> (\<exists>q \<in> set xs. v = Fee q / maxFee)"
proof (induction xs arbitrary: m)
  case Nil
  then show ?case by simp
next
  case (Cons x xs)
  from Cons.prems have "normalize_loop xs maxFee (m(ID x \<mapsto> Fee x / maxFee)) k = Some v"
    by simp
  then have "(m(ID x \<mapsto> Fee x / maxFee)) k = Some v \<or> (\<exists>q \<in> set xs. v = Fee q / maxFee)"
    by (rule Cons.IH)
  then show ?case by (auto split: if_splits)
qed

lemma count_extra_le: "count_extra required fs \<le> length fs"
  by (induction fs) simp_all

lemma FeatureScore_bounds:
  "0 \<le> FeatureScore_Score p policy ctx \<and> FeatureScore_Score p policy ctx \<le> 1"
proof (cases "length (Features p) = 0")
  case True
  then show ?thesis by (simp add: FeatureScore_Score_def)
next
  case False
  have "real (count_extra (RequiredFeatures policy) (Features p)) \<le> real (length (Features p))"
    using count_extra_le[of "RequiredFeatures policy" "Features p"] by simp
  with False show ?thesis by (simp add: FeatureScore_Score_def)
qed

lemma LocationScore_bounds:
  "0 \<le> LocationScore_Score p policy ctx \<and> LocationScore_Score p policy ctx \<le> 1"
  by (simp add: LocationScore_Score_def)

lemma StakeScore_bounds:
  assumes "\<forall>q \<in> set pool. 0 \<le> Stake q" and "p \<in> set pool"
  shows "0 \<le> StakeScore_Score p policy (preScoreCtx_of pool) \<and>
         StakeScore_Score p policy (preScoreCtx_of pool) \<le> 1"
proof -
  let ?M = "ComputeMaxStake pool"
  have le: "Stake p \<le> ?M"
    using assms(2) by (simp add: ComputeMaxStake_def max_stake_loop_bound)
  have nonneg: "0 \<le> Stake p" using assms by simp
  show ?thesis
  proof (cases "?M = 0")
    case True
    with le nonneg have "Stake p = 0" by simp
    with True show ?thesis by (simp add: StakeScore_Score_def preScoreCtx_of_def)
  next
    case False
    with le nonneg have pos: "0 < ?M" by simp
    have "real_of_int (Stake p) \<le> real_of_int ?M" using le by simp
    with pos nonneg False show ?thesis
      by (simp add: StakeScore_Score_def preScoreCtx_of_def)
  qed
qed

lemma FeeScore_bounds:
  assumes "\<forall>q \<in> set pool. 0 \<le> Fee q"
  shows "0 \<le> FeeScore_Score p policy (preScoreCtx_of pool) \<and>
         FeeScore_Score p policy (preScoreCtx_of pool) \<le> 1"
proof (cases "NormalizedFees (preScoreCtx_of pool) (ID p)")
  case None
  then show ?thesis by (simp add: FeeScore_Score_def)
next
  case (Some fee)
  let ?M = "max_fee_loop pool 0"
  let ?D = "if ?M = 0 then 1 else ?M"
  have M0: "0 \<le> ?M" by (rule max_fee_loop_ge)
  then have Dpos: "0 < ?D" by simp
  from Some have "normalize_loop pool ?D Map.empty (ID p) = Some fee"
    by (simp add: preScoreCtx_of_def ComputeNormalizedFees_def Let_def)
  then obtain q where q: "q \<in> set pool" and fee: "fee = Fee q / ?D"
    using normalize_loop_Some[of pool ?D Map.empty "ID p" fee] by auto
  have q0: "0 \<le> Fee q" using assms q by simp
  have qM: "Fee q \<le> ?M" using q by (rule max_fee_loop_bound)
  have qD: "Fee q \<le> ?D"
  proof (cases "?M = 0")
    case True
    with qM show ?thesis by simp
  next
    case False
    with qM show ?thesis by simp
  qed
  have "0 \<le> fee" using q0 Dpos fee by simp
  moreover have "fee \<le> 1" using qD Dpos fee by simp
  ultimately show ?thesis using Some by (simp add: FeeScore_Score_def)
qed

lemma max_stake_loop_const: "\<forall>q \<in> set xs. Stake q \<le> m \<Longrightarrow> max_stake_loop xs m = m"
  by (induction xs arbitrary: m) simp_all

lemma stakeless_MaxStake:
  assumes "\<forall>p \<in> set providers. Stake p = 0"
  shows "MaxStake (preScoreCtx_of providers) = 1"
proof -
  have "ComputeMaxStake providers = 0"
    using assms by (simp add: ComputeMaxStake_def max_stake_loop_const)
  then show ?thesis by (simp add: preScoreCtx_of_def)
qed

section \<open>More of the reference data\<close>

lemmas scorer_eval =
  config_Init_def mock_Providers_def mock_ConsumerPolicy_def
  StakeScore_def FeatureScore_def LocationScore_def FeeScore_def StakeScore_Score_def
  FeatureScore_Score_def LocationScore_Score_def FeeScore_Score_def EqualFold_def

lemma mock_raw_outputs_8:
  "raw_outputs (scorers (config_Init strict)) (mock_Providers ! 7) unweighted_policy
     (preScoreCtx_of [mock_Providers ! 0, mock_Providers ! 4, mock_Providers ! 7]) =
   [1, 3 / 5, 1, 1 / 6]"
  unfolding mock_ctx by (simp add: raw_outputs_def unweighted_policy_def scorer_eval)

lemma mock_weights_len: "map_len (Weights mock_ConsumerPolicy) > 0"
  by (simp add: mock_ConsumerPolicy_def map_len_def)

lemma config_names_distinct: "distinct (map scorer_Name (scorers (config_Init strict)))"
  by (simp add: config_Init_def StakeScore_def FeatureScore_def LocationScore_def FeeScore_def)

lemma config_has_StakeScore: "StakeScore \<in> set (scorers (config_Init strict))"
  by (simp add: config_Init_def)

section \<open>The claims\<close>

text \<open>
  C1 (amended). For the reference pool of eight providers and the reference policy,
  \<^verbatim>\<open>FilterProviders\<close> retains exactly the providers with IDs 1, 5 and 8, and
  \<^verbatim>\<open>GetPairingList\<close> returns them in the order 8, 5, 1 under every runtime: provider 8 is
  ranked first. The final scores of providers 8, 5 and 1 are 0.88, 23/30 and 7/15.
\<close>

theorem C1_mock_ranking:
  "map ID (FilterProviders rt (config_Init strict) mock_Providers mock_ConsumerPolicy) =
     [''1'', ''5'', ''8''] \<and>
   GetPairingList rt (config_Init strict) mock_Providers mock_ConsumerPolicy =
     Inr [mock_Providers ! 7, mock_Providers ! 4, mock_Providers ! 0] \<and>
   map ID [mock_Providers ! 7, mock_Providers ! 4, mock_Providers ! 0] = [''8'', ''5'', ''1''] \<and>
   mset (map (\<lambda>r. (ID (Provider r), Score r))
     (RankProviders rt (config_Init strict)
        (FilterProviders rt (config_Init strict) mock_Providers mock_ConsumerPolicy)
        mock_ConsumerPolicy)) =
     {#(''8'', 88 / 100), (''5'', 23 / 30), (''1'', 7 / 15)#}"
proof -
  let ?pool = "[mock_Providers ! 0, mock_Providers ! 4, mock_Providers ! 7]"
  let ?task = "rankWorker_task (config_Init strict) mock_ConsumerPolicy (preScoreCtx_of ?pool)"
  have ids: "ID (mock_Providers ! 0) = ''1''" "ID (mock_Providers ! 4) = ''5''"
    "ID (mock_Providers ! 7) = ''8''"
    by (simp_all add: mock_Providers_def)
  have a: "map ID (FilterProviders rt (config_Init strict) mock_Providers mock_ConsumerPolicy) =
           [''1'', ''5'', ''8'']"
    unfolding mock_filtered by (simp add: ids)
  have b: "map ID [mock_Providers ! 7, mock_Providers ! 4, mock_Providers ! 0] =
      [''8'', ''5'', ''1'']"
    by (simp add: ids)
  have "mset (map (\<lambda>r. (ID (Provider r), Score r))
       (RankProviders rt (config_Init strict) ?pool mock_ConsumerPolicy)) =
     mset (map (\<lambda>r. (ID (Provider r), Score r)) (map ?task ?pool))"
    using mset_RankProviders[of rt "config_Init strict" ?pool mock_ConsumerPolicy]
    by (metis mset_map)
  also have "\<dots> = {#(''8'', 88 / 100), (''5'', 23 / 30), (''1'', 7 / 15)#}"
    by (simp add: Provider_rankWorker_task ids mock_score_8 mock_score_5 mock_score_1)
  finally have c: "mset (map (\<lambda>r. (ID (Provider r), Score r))
       (RankProviders rt (config_Init strict) ?pool mock_ConsumerPolicy)) =
     {#(''8'', 88 / 100), (''5'', 23 / 30), (''1'', 7 / 15)#}" .
  show ?thesis
    using a b c mock_pairing[of rt strict] by (simp only: mock_filtered simp_thms)
qed

theorem C1_mock_ranking_witness:
  "map ID (FilterProviders reversing_runtime (config_Init False) mock_Providers mock_ConsumerPolicy) =
     [''1'', ''5'', ''8''] \<and>
   GetPairingList reversing_runtime (config_Init False) mock_Providers mock_ConsumerPolicy =
     Inr [mock_Providers ! 7, mock_Providers ! 4, mock_Providers ! 0]"
  using C1_mock_ranking[of reversing_runtime False] by simp

text \<open>
  C1 as stated fails: the provider ranked first is provider 8, not provider 5.
\<close>

theorem C1_counterexample:
  "GetPairingList reversing_runtime (config_Init True) mock_Providers mock_ConsumerPolicy =
     Inr [mock_Providers ! 7, mock_Providers ! 4, mock_Providers ! 0] \<and>
   ID (mock_Providers ! 7) = ''8'' \<and> ID (mock_Providers ! 7) \<noteq> ''5''"
  using mock_pairing[of reversing_runtime True] by (simp add: mock_Providers_def)

text \<open>
  C2 (amended). The location filter accepts a provider iff its location is the required
  location, byte for byte; \<^verbatim>\<open>Apply\<close> keeps exactly those providers. A provider it
  accepts also matches under case-insensitive comparison, but not the other way round:
  a provider whose location is not exactly the required one does not survive
  \<^verbatim>\<open>FilterProviders\<close> of a system that has the location filter among the three filters.
\<close>

theorem C2_location_filter_exact:
  "(filter_ApplySingle LocationFilter p policy \<longleftrightarrow> Location p = RequiredLocation policy) \<and>
   filter_Apply LocationFilter providers policy =
     filter (\<lambda>p. Location p = RequiredLocation policy) providers \<and>
   (filter_ApplySingle LocationFilter p policy \<longrightarrow> EqualFold (Location p) (RequiredLocation policy)) \<and>
   (LocationFilter \<in> set (filters ps) \<and>
    set (filters ps) \<subseteq> {LocationFilter, FeatureFilter, StakeFilter} \<and>
    Location p \<noteq> RequiredLocation policy \<longrightarrow>
      p \<notin> set (FilterProviders rt ps providers policy))"
proof -
  have "p \<notin> set (FilterProviders rt ps providers policy)"
    if l: "LocationFilter \<in> set (filters ps)"
      and s: "set (filters ps) \<subseteq> {LocationFilter, FeatureFilter, StakeFilter}"
      and n: "Location p \<noteq> RequiredLocation policy"
  proof -
    have c: "\<forall>f \<in> set (filters ps). consistent f"
      using s consistent_LocationFilter consistent_FeatureFilter consistent_StakeFilter by auto
    have "set (FilterProviders rt ps providers policy) =
        set (filter (\<lambda>p. \<forall>f \<in> set (filters ps). filter_ApplySingle f p policy) providers)"
      using FilterProviders_mset[OF c, of rt providers policy] by (rule mset_eq_setD)
    moreover have "\<not> filter_ApplySingle LocationFilter p policy"
      using n by (simp add: LocationFilter_def LocationFilter_ApplySingle_def)
    ultimately show ?thesis using l by auto
  qed
  then show ?thesis
    by (simp add: LocationFilter_def LocationFilter_ApplySingle_def LocationFilter_Apply_filter
        EqualFold_refl)
qed

theorem C2_location_filter_exact_witness:
  "filter_ApplySingle LocationFilter (mock_Providers ! 0) mock_ConsumerPolicy \<and>
   EqualFold (Location (mock_Providers ! 0)) (RequiredLocation mock_ConsumerPolicy) \<and>
   filter_Apply LocationFilter mock_Providers mock_ConsumerPolicy =
     [mock_Providers ! 0, mock_Providers ! 3, mock_Providers ! 4, mock_Providers ! 7] \<and>
   Location (mock_Providers ! 1) \<noteq> RequiredLocation mock_ConsumerPolicy \<and>
   mock_Providers ! 1 \<notin>
     set (FilterProviders reversing_runtime (config_Init True) mock_Providers mock_ConsumerPolicy)"
proof -
  have a: "Location (mock_Providers ! 0) = RequiredLocation mock_ConsumerPolicy"
    by (simp add: mock_Providers_def mock_ConsumerPolicy_def)
  have b: "filter (\<lambda>p. Location p = RequiredLocation mock_ConsumerPolicy) mock_Providers =
      [mock_Providers ! 0, mock_Providers ! 3, mock_Providers ! 4, mock_Providers ! 7]"
    by (simp add: mock_Providers_def mock_ConsumerPolicy_def)
  have c: "Location (mock_Providers ! 1) \<noteq> RequiredLocation mock_ConsumerPolicy"
    by (simp add: mock_Providers_def mock_ConsumerPolicy_def)
  have d: "LocationFilter \<in> set (filters (config_Init True))"
    by (simp add: config_Init_def)
  have e: "mock_Providers ! 1 \<notin>
     set (FilterProviders reversing_runtime (config_Init True) mock_Providers mock_ConsumerPolicy)"
    using C2_location_filter_exact[where p = "mock_Providers ! 1" and policy = mock_ConsumerPolicy
        and ps = "config_Init True" and rt = reversing_runtime and providers = mock_Providers]
      c d config_filters_subset[of True]
    by blast
  show ?thesis
    using C2_location_filter_exact[where p = "mock_Providers ! 0" and policy = mock_ConsumerPolicy
        and providers = mock_Providers and ps = "config_Init True" and rt = reversing_runtime]
      a b c e
    by simp
qed

text \<open>
  C2 as stated fails: a provider at \<^verbatim>\<open>us-west\<close> matches the required \<^verbatim>\<open>US-West\<close>
  case-insensitively, and the location filter rejects it.
\<close>

theorem C2_counterexample:
  "EqualFold ''us-west'' ''US-West'' \<and>
   RequiredLocation mock_ConsumerPolicy = ''US-West'' \<and>
   \<not> filter_ApplySingle LocationFilter
       \<lparr>ID = ''9'', Fee = 1, Address = ''provider9'', Stake = 1000, Location = ''us-west'',
        Features = [''featA'', ''featB'']\<rparr> mock_ConsumerPolicy \<and>
   filter_Apply LocationFilter
       [\<lparr>ID = ''9'', Fee = 1, Address = ''provider9'', Stake = 1000, Location = ''us-west'',
         Features = [''featA'', ''featB'']\<rparr>] mock_ConsumerPolicy = [] \<and>
   FilterProviders reversing_runtime (config_Init True)
       [\<lparr>ID = ''9'', Fee = 1, Address = ''provider9'', Stake = 1000, Location = ''us-west'',
         Features = [''featA'', ''featB'']\<rparr>] mock_ConsumerPolicy = []"
proof -
  have "EqualFold ''us-west'' ''US-West''" by code_simp
  then show ?thesis
    by (simp add: LocationFilter_def LocationFilter_ApplySingle_def mock_ConsumerPolicy_def
        FilterProviders_def config_Init_def parallelFilterThreshold_def FeatureFilter_def
        StakeFilter_def FeatureFilter_Apply_def required_keys_def)
qed

text \<open>
  C3. Each of the three filters is consistent (\<^verbatim>\<open>Apply\<close> returns the subsequence that
  \<^verbatim>\<open>ApplySingle\<close> accepts). For a system configured with these filters, a provider is in
  the output of \<^verbatim>\<open>FilterProviders\<close> iff it is in the input and every filter's
  \<^verbatim>\<open>ApplySingle\<close> accepts it; the output has each such provider as often as the input.
  On the sequential path it is that subsequence of the input; on the parallel path the
  worker pool returns the same providers, in the order in which the workers send them.
\<close>

theorem C3_filters_conjunctive:
  assumes "set (filters ps) \<subseteq> {LocationFilter, FeatureFilter, StakeFilter}"
  shows "consistent LocationFilter \<and> consistent FeatureFilter \<and> consistent StakeFilter \<and>
         (p \<in> set (FilterProviders rt ps providers policy) \<longleftrightarrow>
            p \<in> set providers \<and> (\<forall>f \<in> set (filters ps). filter_ApplySingle f p policy)) \<and>
         mset (FilterProviders rt ps providers policy) =
           mset (filter (\<lambda>p. \<forall>f \<in> set (filters ps). filter_ApplySingle f p policy) providers) \<and>
         (length providers \<le> parallelFilterThreshold \<longrightarrow>
            FilterProviders rt ps providers policy =
              filter (\<lambda>p. \<forall>f \<in> set (filters ps). filter_ApplySingle f p policy) providers) \<and>
         (length providers > parallelFilterThreshold \<longrightarrow>
            FilterProviders rt ps providers policy =
              parallelFilterProviders rt ps providers policy \<and>
            mset (parallelFilterProviders rt ps providers policy) =
              mset (filter (\<lambda>p. \<forall>f \<in> set (filters ps). filter_ApplySingle f p policy) providers))"
proof -
  have c: "\<forall>f \<in> set (filters ps). consistent f"
    using assms consistent_LocationFilter consistent_FeatureFilter consistent_StakeFilter
    by auto
  have m: "mset (FilterProviders rt ps providers policy) =
      mset (filter (\<lambda>p. \<forall>f \<in> set (filters ps). filter_ApplySingle f p policy) providers)"
    using c by (rule FilterProviders_mset)
  have "set (FilterProviders rt ps providers policy) =
      set (filter (\<lambda>p. \<forall>f \<in> set (filters ps). filter_ApplySingle f p policy) providers)"
    using m by (rule mset_eq_setD)
  then have s: "p \<in> set (FilterProviders rt ps providers policy) \<longleftrightarrow>
            p \<in> set providers \<and> (\<forall>f \<in> set (filters ps). filter_ApplySingle f p policy)"
    by simp
  have par: "length providers > parallelFilterThreshold \<longrightarrow>
            FilterProviders rt ps providers policy =
              parallelFilterProviders rt ps providers policy \<and>
            mset (parallelFilterProviders rt ps providers policy) =
              mset (filter (\<lambda>p. \<forall>f \<in> set (filters ps). filter_ApplySingle f p policy) providers)"
    by (auto simp: FilterProviders_def mset_parallelFilterProviders filterWorker_pass_iff)
  show ?thesis
    using m s par c consistent_LocationFilter consistent_FeatureFilter consistent_StakeFilter
    by (simp add: FilterProviders_sequential)
qed

theorem C3_filters_conjunctive_witness:
  "set (filters (config_Init True)) \<subseteq> {LocationFilter, FeatureFilter, StakeFilter} \<and>
   mock_Providers ! 4 \<in>
     set (FilterProviders reversing_runtime (config_Init True) mock_Providers mock_ConsumerPolicy) \<and>
   mock_Providers ! 1 \<notin>
     set (FilterProviders reversing_runtime (config_Init True) mock_Providers mock_ConsumerPolicy) \<and>
   FilterProviders reversing_runtime (config_Init True)
     (mock_Providers ! 1 # replicate 51 (mock_Providers ! 4)) mock_ConsumerPolicy =
     replicate 51 (mock_Providers ! 4)"
proof -
  let ?ps = "config_Init True"
  let ?big = "mock_Providers ! 1 # replicate 51 (mock_Providers ! 4)"
  let ?out = "FilterProviders reversing_runtime ?ps ?big mock_ConsumerPolicy"
  have f: "filters ?ps = [LocationFilter, FeatureFilter, StakeFilter]"
    by (simp add: config_Init_def)
  have in5: "mock_Providers ! 4 \<in> set mock_Providers"
    by (simp add: mock_Providers_def)
  have a: "mock_Providers ! 4 \<in>
     set (FilterProviders reversing_runtime ?ps mock_Providers mock_ConsumerPolicy)"
    using C3_filters_conjunctive[where rt = reversing_runtime and ps = "config_Init True"
        and p = "mock_Providers ! 4" and providers = mock_Providers
        and policy = mock_ConsumerPolicy, OF config_filters_subset]
      mock_5_passes in5
    by (simp add: f)
  have b: "mock_Providers ! 1 \<notin>
     set (FilterProviders reversing_runtime ?ps mock_Providers mock_ConsumerPolicy)"
    using C3_filters_conjunctive[where rt = reversing_runtime and ps = "config_Init True"
        and p = "mock_Providers ! 1" and providers = mock_Providers
        and policy = mock_ConsumerPolicy, OF config_filters_subset]
      mock_2_fails
    by (simp add: f)
  have "mset ?out =
      mset (filter (\<lambda>p. \<forall>f \<in> set (filters ?ps). filter_ApplySingle f p mock_ConsumerPolicy) ?big)"
    using C3_filters_conjunctive[where rt = reversing_runtime and ps = "config_Init True"
        and p = "mock_Providers ! 4" and providers = "?big"
        and policy = mock_ConsumerPolicy, OF config_filters_subset]
    by simp
  also have "filter (\<lambda>p. \<forall>f \<in> set (filters ?ps). filter_ApplySingle f p mock_ConsumerPolicy) ?big =
      replicate 51 (mock_Providers ! 4)"
    using mock_5_passes mock_2_fails by (simp add: f)
  finally have m: "mset ?out = mset (replicate 51 (mock_Providers ! 4))" .
  have c: "?out = replicate 51 (mock_Providers ! 4)"
  proof (rule replicate_eqI)
    show "length ?out = 51"
      using m by (metis length_replicate size_mset)
    fix y assume "y \<in> set ?out"
    then have "y \<in> set (replicate 51 (mock_Providers ! 4))"
      using m by (metis mset_eq_setD)
    then show "y = mock_Providers ! 4" by simp
  qed
  show ?thesis
    using config_filters_subset a b c by simp
qed

text \<open>
  C4. \<^verbatim>\<open>GetPairingList\<close> returns an error iff strict mode is on and the filter stage
  yields no provider; on the same input the lenient system returns the empty list and no
  error. \<^verbatim>\<open>FilterProviders\<close> and \<^verbatim>\<open>RankProviders\<close> have no error result at all (they
  are total functions into lists), and both return the empty list on the empty input.
\<close>

theorem C4_error_iff_strict_and_empty:
  "((\<exists>e. GetPairingList rt ps providers policy = Inl e) \<longleftrightarrow>
      strictMode ps \<and> FilterProviders rt ps providers policy = []) \<and>
   (strictMode ps \<and> FilterProviders rt ps providers policy = [] \<longrightarrow>
      GetPairingList rt ps providers policy = Inl NoProvidersMatched \<and>
      GetPairingList rt (ps\<lparr>strictMode := False\<rparr>) providers policy = Inr []) \<and>
   FilterProviders rt ps [] policy = [] \<and>
   RankProviders rt ps [] policy = []"
proof -
  have "filterWorker_send (ps\<lparr>strictMode := False\<rparr>) policy = filterWorker_send ps policy"
    by (rule ext) (simp add: filterWorker_send_def)
  then have same: "FilterProviders rt (ps\<lparr>strictMode := False\<rparr>) providers policy =
      FilterProviders rt ps providers policy"
    by (simp add: FilterProviders_def parallelFilterProviders_def)
  have "(\<exists>e. GetPairingList rt ps providers policy = Inl e) \<longleftrightarrow>
      strictMode ps \<and> FilterProviders rt ps providers policy = []"
  proof (cases "FilterProviders rt ps providers policy = []")
    case True
    then show ?thesis by (simp add: GetPairingList_def Let_def)
  next
    case False
    then show ?thesis by (simp add: GetPairingList_nonempty)
  qed
  moreover have "strictMode ps \<and> FilterProviders rt ps providers policy = [] \<longrightarrow>
      GetPairingList rt ps providers policy = Inl NoProvidersMatched \<and>
      GetPairingList rt (ps\<lparr>strictMode := False\<rparr>) providers policy = Inr []"
    by (simp add: GetPairingList_def Let_def same)
  moreover have "FilterProviders rt ps [] policy = []"
    by (simp add: FilterProviders_def)
  moreover have "RankProviders rt ps [] policy = []"
    by (simp add: RankProviders_def)
  ultimately show ?thesis by blast
qed

theorem C4_error_iff_strict_and_empty_witness:
  "strictMode (config_Init True) \<and>
   FilterProviders reversing_runtime (config_Init True) mock_Providers antarctica_policy = [] \<and>
   GetPairingList reversing_runtime (config_Init True) mock_Providers antarctica_policy =
     Inl NoProvidersMatched \<and>
   GetPairingList reversing_runtime (config_Init False) mock_Providers antarctica_policy = Inr []"
proof -
  have s: "strictMode (config_Init True)" by (simp add: config_Init_def)
  have l: "(config_Init True)\<lparr>strictMode := False\<rparr> = config_Init False"
    by (simp add: config_Init_def)
  show ?thesis
    using C4_error_iff_strict_and_empty[of reversing_runtime "config_Init True" mock_Providers
        antarctica_policy] s l antarctica_filtered[of reversing_runtime True]
    by simp
qed

text \<open>
  C5. When the weight mapping is empty or absent (\<^verbatim>\<open>len(policy.Weights)\<close> is 0), the
  final score of a provider is the arithmetic mean of the raw outputs of the \<open>N\<close>
  configured scorers, and 0 when there is no scorer. This holds for the record
  \<^verbatim>\<open>rankWorker\<close> sends for any provider and context, and so for every record
  \<^verbatim>\<open>RankProviders\<close> returns.
\<close>

theorem C5_average_mode:
  assumes "map_len (Weights policy) = 0"
  shows "(scorers ps = [] \<longrightarrow> Score (rankWorker_task ps policy ctx p) = 0) \<and>
         (scorers ps \<noteq> [] \<longrightarrow>
            Score (rankWorker_task ps policy ctx p) =
              sum_list (raw_outputs (scorers ps) p policy ctx) / real (length (scorers ps))) \<and>
         (\<forall>r \<in> set (RankProviders rt ps providers policy).
            Score r =
              (if scorers ps = [] then 0
               else sum_list (raw_outputs (scorers ps) (Provider r) policy (preScoreCtx_of providers))
                      / real (length (scorers ps))))"
proof -
  have "\<forall>r \<in> set (RankProviders rt ps providers policy).
            Score r =
              (if scorers ps = [] then 0
               else sum_list (raw_outputs (scorers ps) (Provider r) policy (preScoreCtx_of providers))
                      / real (length (scorers ps)))"
  proof
    fix r assume "r \<in> set (RankProviders rt ps providers policy)"
    then have "r = rankWorker_task ps policy (preScoreCtx_of providers) (Provider r)"
      by (rule in_RankProviders)
    then show "Score r =
              (if scorers ps = [] then 0
               else sum_list (raw_outputs (scorers ps) (Provider r) policy (preScoreCtx_of providers))
                      / real (length (scorers ps)))"
      using Score_average[OF assms, of ps "preScoreCtx_of providers" "Provider r"] by simp
  qed
  then show ?thesis
    using Score_average[OF assms, of ps ctx p] by simp
qed

theorem C5_average_mode_witness:
  "map_len (Weights unweighted_policy) = 0 \<and>
   Score (rankWorker_task (config_Init True) unweighted_policy
     (preScoreCtx_of [mock_Providers ! 0, mock_Providers ! 4, mock_Providers ! 7])
     (mock_Providers ! 7)) = (1 + 3 / 5 + 1 + 1 / 6) / 4 \<and>
   Score (rankWorker_task no_scorers unweighted_policy
     (preScoreCtx_of [mock_Providers ! 0, mock_Providers ! 4, mock_Providers ! 7])
     (mock_Providers ! 7)) = 0"
proof -
  let ?ctx = "preScoreCtx_of [mock_Providers ! 0, mock_Providers ! 4, mock_Providers ! 7]"
  have h: "map_len (Weights unweighted_policy) = 0"
    by (simp add: unweighted_policy_def map_len_def)
  have n: "scorers (config_Init True) \<noteq> []" "length (scorers (config_Init True)) = 4"
    by (simp_all add: config_Init_def)
  have z: "scorers no_scorers = []"
    by (simp add: no_scorers_def)
  show ?thesis
    using C5_average_mode[OF h, of "config_Init True" ?ctx "mock_Providers ! 7"]
      C5_average_mode[OF h, of no_scorers ?ctx "mock_Providers ! 7"]
      h n z mock_raw_outputs_8[of True]
    by simp
qed

text \<open>
  C6. When the weight mapping is not empty, a scorer whose name is absent from it adds
  nothing to the final score: two runs whose scorers have the same names, and the same
  raw outputs for every scorer whose name is in the mapping, end with the same final
  score, whatever the other raw outputs are. When, moreover, the scorers have distinct
  names (the contract of the scorer set), the final score is the sum, over the scorers
  whose name is in the mapping, of raw output times weight.
\<close>

theorem C6_weighted_mode:
  assumes "map_len (Weights policy) > 0"
  shows "(distinct (map scorer_Name (scorers ps)) \<longrightarrow>
           Score (rankWorker_task ps policy ctx p) =
             (\<Sum>s \<leftarrow> filter (\<lambda>s. scorer_Name s \<in> dom (map_of (Weights policy))) (scorers ps).
                scorer_Score s p policy ctx * the (map_of (Weights policy) (scorer_Name s)))) \<and>
         (\<forall>(ps'::pairingSystem) (p'::Provider) (ctx'::PreScoreContext).
            list_all2 (\<lambda>s s'. scorer_Name s' = scorer_Name s \<and>
                (scorer_Name s \<in> dom (map_of (Weights policy)) \<longrightarrow>
                   scorer_Score s' p' policy ctx' = scorer_Score s p policy ctx))
              (scorers ps) (scorers ps') \<longrightarrow>
            Score (rankWorker_task ps' policy ctx' p') = Score (rankWorker_task ps policy ctx p))"
proof (intro conjI impI allI)
  assume "distinct (map scorer_Name (scorers ps))"
  with assms show "Score (rankWorker_task ps policy ctx p) =
      (\<Sum>s \<leftarrow> filter (\<lambda>s. scorer_Name s \<in> dom (map_of (Weights policy))) (scorers ps).
         scorer_Score s p policy ctx * the (map_of (Weights policy) (scorer_Name s)))"
    by (rule Score_weighted)
next
  fix ps' :: pairingSystem and p' :: Provider and ctx' :: PreScoreContext
  assume "list_all2 (\<lambda>s s'. scorer_Name s' = scorer_Name s \<and>
                (scorer_Name s \<in> dom (map_of (Weights policy)) \<longrightarrow>
                   scorer_Score s' p' policy ctx' = scorer_Score s p policy ctx))
              (scorers ps) (scorers ps')"
  with assms show "Score (rankWorker_task ps' policy ctx' p') =
      Score (rankWorker_task ps policy ctx p)"
    by (rule Score_weighted_agree)
qed

theorem C6_weighted_mode_witness:
  "map_len (Weights mock_ConsumerPolicy) > 0 \<and>
   distinct (map scorer_Name (scorers (config_Init True))) \<and>
   Score (rankWorker_task (config_Init True) mock_ConsumerPolicy
     (preScoreCtx_of [mock_Providers ! 0, mock_Providers ! 4, mock_Providers ! 7])
     (mock_Providers ! 7)) = 1 * (5 / 10) + 3 / 5 * (3 / 10) + 1 * (2 / 10) \<and>
   scorer_Score FeeScore (mock_Providers ! 7) mock_ConsumerPolicy
     (preScoreCtx_of [mock_Providers ! 0, mock_Providers ! 4, mock_Providers ! 7]) = 1 / 6 \<and>
   scorer_Score FeeScore (mock_Providers ! 7) mock_ConsumerPolicy
     ((preScoreCtx_of [mock_Providers ! 0, mock_Providers ! 4, mock_Providers ! 7])
        \<lparr>NormalizedFees := Map.empty\<rparr>) = 0 \<and>
   Score (rankWorker_task (config_Init True) mock_ConsumerPolicy
     ((preScoreCtx_of [mock_Providers ! 0, mock_Providers ! 4, mock_Providers ! 7])
        \<lparr>NormalizedFees := Map.empty\<rparr>)
     (mock_Providers ! 7)) =
   Score (rankWorker_task (config_Init True) mock_ConsumerPolicy
     (preScoreCtx_of [mock_Providers ! 0, mock_Providers ! 4, mock_Providers ! 7])
     (mock_Providers ! 7))"
proof -
  let ?ps = "config_Init True"
  let ?ctx = "preScoreCtx_of [mock_Providers ! 0, mock_Providers ! 4, mock_Providers ! 7]"
  let ?ctx' = "?ctx\<lparr>NormalizedFees := Map.empty\<rparr>"
  let ?p = "mock_Providers ! 7"
  note inst = C6_weighted_mode[where policy = mock_ConsumerPolicy and ps = "config_Init True"
      and ctx = "?ctx" and p = "?p", OF mock_weights_len]
  have a: "Score (rankWorker_task ?ps mock_ConsumerPolicy ?ctx ?p) =
      1 * (5 / 10) + 3 / 5 * (3 / 10) + 1 * (2 / 10)"
    using inst[THEN conjunct1, rule_format, OF config_names_distinct] unfolding mock_ctx
    by (simp add: scorer_eval dom_map_of_conv_image_fst)
  have rel: "list_all2 (\<lambda>s s'. scorer_Name s' = scorer_Name s \<and>
                (scorer_Name s \<in> dom (map_of (Weights mock_ConsumerPolicy)) \<longrightarrow>
                   scorer_Score s' ?p mock_ConsumerPolicy ?ctx' =
                   scorer_Score s ?p mock_ConsumerPolicy ?ctx))
              (scorers ?ps) (scorers ?ps)"
    unfolding mock_ctx by (simp add: scorer_eval dom_map_of_conv_image_fst)
  have b: "Score (rankWorker_task ?ps mock_ConsumerPolicy ?ctx' ?p) =
      Score (rankWorker_task ?ps mock_ConsumerPolicy ?ctx ?p)"
    using inst[THEN conjunct2, rule_format, OF rel] .
  have c: "scorer_Score FeeScore ?p mock_ConsumerPolicy ?ctx = 1 / 6"
    unfolding mock_ctx by (simp add: scorer_eval)
  have d: "scorer_Score FeeScore ?p mock_ConsumerPolicy ?ctx' = 0"
    by (simp add: scorer_eval)
  show ?thesis
    using mock_weights_len config_names_distinct[of True] a b c d by simp
qed

text \<open>
  C7 (amended). \<^verbatim>\<open>FeatureScore\<close> and \<^verbatim>\<open>LocationScore\<close> lie in \<open>[0,1]\<close> for every
  provider, policy and context. \<^verbatim>\<open>StakeScore\<close> and \<^verbatim>\<open>FeeScore\<close> lie in \<open>[0,1]\<close> for
  every provider of a pool with non-negative stakes and fees, under the context
  \<^verbatim>\<open>RankProviders\<close> builds from that pool.
\<close>

theorem C7_scores_bounded:
  "0 \<le> scorer_Score FeatureScore p policy ctx \<and> scorer_Score FeatureScore p policy ctx \<le> 1 \<and>
   0 \<le> scorer_Score LocationScore p policy ctx \<and> scorer_Score LocationScore p policy ctx \<le> 1 \<and>
   ((\<forall>q \<in> set pool. 0 \<le> Stake q \<and> 0 \<le> Fee q) \<and> p \<in> set pool \<longrightarrow>
      0 \<le> scorer_Score StakeScore p policy (preScoreCtx_of pool) \<and>
      scorer_Score StakeScore p policy (preScoreCtx_of pool) \<le> 1 \<and>
      0 \<le> scorer_Score FeeScore p policy (preScoreCtx_of pool) \<and>
      scorer_Score FeeScore p policy (preScoreCtx_of pool) \<le> 1)"
proof -
  have "(\<forall>q \<in> set pool. 0 \<le> Stake q \<and> 0 \<le> Fee q) \<and> p \<in> set pool \<longrightarrow>
      0 \<le> StakeScore_Score p policy (preScoreCtx_of pool) \<and>
      StakeScore_Score p policy (preScoreCtx_of pool) \<le> 1 \<and>
      0 \<le> FeeScore_Score p policy (preScoreCtx_of pool) \<and>
      FeeScore_Score p policy (preScoreCtx_of pool) \<le> 1"
    using StakeScore_bounds[of pool p policy] FeeScore_bounds[of pool p policy] by simp
  then show ?thesis
    using FeatureScore_bounds[of p policy ctx] LocationScore_bounds[of p policy ctx]
    by (simp add: StakeScore_def FeatureScore_def LocationScore_def FeeScore_def)
qed

theorem C7_scores_bounded_witness:
  "mock_Providers ! 4 \<in> set [mock_Providers ! 0, mock_Providers ! 4, mock_Providers ! 7] \<and>
   scorer_Score StakeScore (mock_Providers ! 4) mock_ConsumerPolicy
     (preScoreCtx_of [mock_Providers ! 0, mock_Providers ! 4, mock_Providers ! 7]) = 5 / 6 \<and>
   scorer_Score FeeScore (mock_Providers ! 4) mock_ConsumerPolicy
     (preScoreCtx_of [mock_Providers ! 0, mock_Providers ! 4, mock_Providers ! 7]) = 11 / 15 \<and>
   0 \<le> scorer_Score StakeScore (mock_Providers ! 4) mock_ConsumerPolicy
     (preScoreCtx_of [mock_Providers ! 0, mock_Providers ! 4, mock_Providers ! 7]) \<and>
   scorer_Score StakeScore (mock_Providers ! 4) mock_ConsumerPolicy
     (preScoreCtx_of [mock_Providers ! 0, mock_Providers ! 4, mock_Providers ! 7]) \<le> 1 \<and>
   0 \<le> scorer_Score FeeScore (mock_Providers ! 4) mock_ConsumerPolicy
     (preScoreCtx_of [mock_Providers ! 0, mock_Providers ! 4, mock_Providers ! 7]) \<and>
   scorer_Score FeeScore (mock_Providers ! 4) mock_ConsumerPolicy
     (preScoreCtx_of [mock_Providers ! 0, mock_Providers ! 4, mock_Providers ! 7]) \<le> 1"
proof -
  let ?pool = "[mock_Providers ! 0, mock_Providers ! 4, mock_Providers ! 7]"
  have h: "\<forall>q \<in> set ?pool. 0 \<le> Stake q \<and> 0 \<le> Fee q"
    by (simp add: mock_Providers_def)
  have i: "mock_Providers ! 4 \<in> set ?pool" by simp
  have s: "scorer_Score StakeScore (mock_Providers ! 4) mock_ConsumerPolicy (preScoreCtx_of ?pool) = 5 / 6"
    unfolding mock_ctx by (simp add: scorer_eval)
  have f: "scorer_Score FeeScore (mock_Providers ! 4) mock_ConsumerPolicy (preScoreCtx_of ?pool) = 11 / 15"
    unfolding mock_ctx by (simp add: scorer_eval)
  from C7_scores_bounded[of "mock_Providers ! 4" mock_ConsumerPolicy "preScoreCtx_of ?pool" ?pool] h i
  have "0 \<le> scorer_Score StakeScore (mock_Providers ! 4) mock_ConsumerPolicy (preScoreCtx_of ?pool) \<and>
      scorer_Score StakeScore (mock_Providers ! 4) mock_ConsumerPolicy (preScoreCtx_of ?pool) \<le> 1 \<and>
      0 \<le> scorer_Score FeeScore (mock_Providers ! 4) mock_ConsumerPolicy (preScoreCtx_of ?pool) \<and>
      scorer_Score FeeScore (mock_Providers ! 4) mock_ConsumerPolicy (preScoreCtx_of ?pool) \<le> 1"
    by blast
  with i s f show ?thesis by blast
qed

text \<open>
  C7 as stated fails: under the context of another pool (maximum stake 1000) the stake
  score of provider 5 is 2.5, and under a context whose normalized fee for it is 2 its
  fee score is -1.
\<close>

theorem C7_counterexample:
  "MaxStake (preScoreCtx_of [mock_Providers ! 0]) = 1000 \<and>
   scorer_Score StakeScore (mock_Providers ! 4) mock_ConsumerPolicy
     (preScoreCtx_of [mock_Providers ! 0]) = 5 / 2 \<and>
   \<not> (5 / 2 \<le> (1::real)) \<and>
   scorer_Score FeeScore (mock_Providers ! 4) mock_ConsumerPolicy
     \<lparr>MaxStake = 3000, AverageLatency = 0, NormalizedFees = [''5'' \<mapsto> 2]\<rparr> = - 1 \<and>
   \<not> (0 \<le> (- 1::real))"
  by (simp add: preScoreCtx_of_def ComputeMaxStake_def ComputeNormalizedFees_def scorer_eval)

text \<open>
  C8. Whenever \<^verbatim>\<open>GetPairingList\<close> succeeds, the list it returns has
  \<open>min 5 n\<close> elements, \<open>n\<close> being the number of providers that survive the filter
  stage; and it does succeed whenever at least one provider survives: the selection
  loop never reads beyond the end of the sorted slice, because its bound is
  \<^verbatim>\<open>utils.Min(topNProviders, len(scored))\<close>.
\<close>

theorem C8_top_n_truncation:
  "(\<forall>out. GetPairingList rt ps providers policy = Inr out \<longrightarrow>
      length out = min 5 (length (FilterProviders rt ps providers policy))) \<and>
   (FilterProviders rt ps providers policy \<noteq> [] \<longrightarrow>
      (\<exists>out. GetPairingList rt ps providers policy = Inr out)) \<and>
   GetPairingList rt ps providers policy \<noteq> Inl IndexOutOfRange"
proof -
  let ?filtered = "FilterProviders rt ps providers policy"
  let ?sorted = "sort_Slice (sort_tie rt) higher_first (RankProviders rt ps ?filtered policy)"
  have len: "length ?sorted = length ?filtered"
    by (simp add: length_sort_Slice length_RankProviders)
  show ?thesis
  proof (cases "?filtered = []")
    case True
    then show ?thesis by (simp add: GetPairingList_def Let_def)
  next
    case False
    then have "GetPairingList rt ps providers policy =
        Inr (map Provider (take (min topNProviders (length ?sorted)) ?sorted))"
      by (rule GetPairingList_nonempty)
    with False show ?thesis
      by (simp add: len topNProviders_def)
  qed
qed

theorem C8_top_n_truncation_witness:
  "GetPairingList reversing_runtime (config_Init True) mock_Providers mock_ConsumerPolicy =
     Inr [mock_Providers ! 7, mock_Providers ! 4, mock_Providers ! 0] \<and>
   length [mock_Providers ! 7, mock_Providers ! 4, mock_Providers ! 0] =
     min 5 (length (FilterProviders reversing_runtime (config_Init True) mock_Providers
       mock_ConsumerPolicy))"
  using C8_top_n_truncation[of reversing_runtime "config_Init True" mock_Providers
      mock_ConsumerPolicy]
    mock_pairing[of reversing_runtime True]
  by simp

text \<open>
  C9. For a non-empty pool in which every provider has stake 0, \<^verbatim>\<open>RankProviders\<close>
  divides by the maximum stake 1, never by 0, returns one record per provider, and the
  stake score of every provider, as a raw output and as the \<^verbatim>\<open>StakeScore\<close> entry of
  every record's components, is 0.
\<close>

theorem C9_stakeless_pool:
  assumes "providers \<noteq> []" and "\<forall>p \<in> set providers. Stake p = 0"
    and "StakeScore \<in> set (scorers ps)" and "distinct (map scorer_Name (scorers ps))"
  shows "MaxStake (preScoreCtx_of providers) = 1 \<and>
         length (RankProviders rt ps providers policy) = length providers \<and>
         (\<forall>p \<in> set providers. scorer_Score StakeScore p policy (preScoreCtx_of providers) = 0) \<and>
         (\<forall>r \<in> set (RankProviders rt ps providers policy).
            map_of (Components r) ''StakeScore'' = Some 0)"
proof -
  let ?ctx = "preScoreCtx_of providers"
  have M: "MaxStake ?ctx = 1"
    using assms(2) by (rule stakeless_MaxStake)
  have zero: "\<forall>p \<in> set providers. scorer_Score StakeScore p policy ?ctx = 0"
    using assms(2) M by (simp add: StakeScore_def StakeScore_Score_def)
  have "\<forall>r \<in> set (RankProviders rt ps providers policy).
            map_of (Components r) ''StakeScore'' = Some 0"
  proof
    fix r assume r: "r \<in> set (RankProviders rt ps providers policy)"
    then have eq: "r = rankWorker_task ps policy ?ctx (Provider r)"
      by (rule in_RankProviders)
    have "Provider r \<in> set providers"
      using r by (rule set_RankProviders_providers)
    with zero have z: "scorer_Score StakeScore (Provider r) policy ?ctx = 0" by simp
    have "map_of (Components (rankWorker_task ps policy ?ctx (Provider r))) (scorer_Name StakeScore) =
        Some (scorer_Score StakeScore (Provider r) policy ?ctx)"
      using assms(4) assms(3) by (rule component_of_scorer)
    moreover have "Components r = Components (rankWorker_task ps policy ?ctx (Provider r))"
      by (rule arg_cong[OF eq])
    moreover have "scorer_Name StakeScore = ''StakeScore''"
      by (simp add: StakeScore_def)
    ultimately show "map_of (Components r) ''StakeScore'' = Some 0"
      using z by (simp only:)
  qed
  with M zero show ?thesis
    using length_RankProviders[of rt ps providers policy] by simp
qed

theorem C9_stakeless_pool_witness:
  "stakeless_pool \<noteq> [] \<and>
   map Stake stakeless_pool = [0, 0] \<and>
   StakeScore \<in> set (scorers (config_Init True)) \<and>
   distinct (map scorer_Name (scorers (config_Init True))) \<and>
   MaxStake (preScoreCtx_of stakeless_pool) = 1 \<and>
   length (RankProviders reversing_runtime (config_Init True) stakeless_pool mock_ConsumerPolicy) = 2 \<and>
   scorer_Score StakeScore (stakeless_pool ! 1) mock_ConsumerPolicy (preScoreCtx_of stakeless_pool) = 0"
proof -
  have ne: "stakeless_pool \<noteq> []" by (simp add: stakeless_pool_def)
  have st: "map Stake stakeless_pool = [0, 0]" by (simp add: stakeless_pool_def)
  then have z: "\<forall>p \<in> set stakeless_pool. Stake p = 0"
    by (simp add: stakeless_pool_def)
  have len: "length stakeless_pool = 2" by (simp add: stakeless_pool_def)
  have mem: "stakeless_pool ! 1 \<in> set stakeless_pool" by (simp add: stakeless_pool_def)
  note inst = C9_stakeless_pool[where rt = reversing_runtime and ps = "config_Init True"
      and providers = stakeless_pool and policy = mock_ConsumerPolicy,
      OF ne z config_has_StakeScore config_names_distinct]
  have a: "MaxStake (preScoreCtx_of stakeless_pool) = 1"
    using inst[THEN conjunct1] .
  have b: "length (RankProviders reversing_runtime (config_Init True) stakeless_pool
      mock_ConsumerPolicy) = 2"
    using inst[THEN conjunct2, THEN conjunct1] len by simp
  have c: "scorer_Score StakeScore (stakeless_pool ! 1) mock_ConsumerPolicy
      (preScoreCtx_of stakeless_pool) = 0"
    using inst[THEN conjunct2, THEN conjunct2, THEN conjunct1] mem by simp
  show ?thesis
    using ne st config_has_StakeScore[of True] config_names_distinct[of True] a b c
    by simp
qed

text \<open>
  C10. \<^verbatim>\<open>RankProviders\<close> returns one record per input provider: the worker pool sends
  one record for every task, so the providers of the records are, up to order, the input
  providers, and the lengths agree. The keys of each record's components are distinct
  and are exactly the names of the configured scorers.
\<close>

theorem C10_one_score_per_provider:
  "mset (map Provider (RankProviders rt ps providers policy)) = mset providers \<and>
   length (RankProviders rt ps providers policy) = length providers \<and>
   (\<forall>r \<in> set (RankProviders rt ps providers policy).
      distinct (map fst (Components r)) \<and>
      set (map fst (Components r)) = scorer_Name ` set (scorers ps))"
proof -
  let ?task = "rankWorker_task ps policy (preScoreCtx_of providers)"
  have "mset (RankProviders rt ps providers policy) = mset (map ?task providers)"
    by (rule mset_RankProviders)
  then have "mset (map Provider (RankProviders rt ps providers policy)) =
      mset (map Provider (map ?task providers))"
    by (metis mset_map)
  moreover have "map Provider (map ?task providers) = providers"
    by (simp add: comp_def Provider_rankWorker_task)
  ultimately have m: "mset (map Provider (RankProviders rt ps providers policy)) = mset providers"
    by (simp only:)
  have k: "\<forall>r \<in> set (RankProviders rt ps providers policy).
            distinct (map fst (Components r)) \<and>
            set (map fst (Components r)) = scorer_Name ` set (scorers ps)"
  proof
    fix r assume "r \<in> set (RankProviders rt ps providers policy)"
    then have "r = ?task (Provider r)"
      by (rule in_RankProviders)
    then have "Components r = Components (?task (Provider r))"
      by (rule arg_cong)
    then have eq: "Components r = fst (score_loop (scorers ps) (Provider r) policy
        (preScoreCtx_of providers) [] 0)"
      by (simp only: Components_rankWorker_task)
    have "distinct (map fst (Components r))"
      unfolding eq by (rule distinct_score_loop) simp
    moreover have "set (map fst (Components r)) = scorer_Name ` set (scorers ps)"
      unfolding eq using keys_score_loop[of "scorers ps" "Provider r" policy
          "preScoreCtx_of providers" "[]" 0]
      by simp
    ultimately show "distinct (map fst (Components r)) \<and>
            set (map fst (Components r)) = scorer_Name ` set (scorers ps)" ..
  qed
  show ?thesis
    using m k length_RankProviders[of rt ps providers policy] by simp
qed

theorem C10_one_score_per_provider_witness:
  "length (RankProviders reversing_runtime (config_Init True) mock_Providers mock_ConsumerPolicy) = 8 \<and>
   mset (map Provider
     (RankProviders reversing_runtime (config_Init True) mock_Providers mock_ConsumerPolicy)) =
     mset mock_Providers \<and>
   rankWorker_task (config_Init True) mock_ConsumerPolicy (preScoreCtx_of [mock_Providers ! 7])
        (mock_Providers ! 7) \<in>
     set (RankProviders reversing_runtime (config_Init True) [mock_Providers ! 7] mock_ConsumerPolicy) \<and>
   set (map fst (Components
     (rankWorker_task (config_Init True) mock_ConsumerPolicy (preScoreCtx_of [mock_Providers ! 7])
        (mock_Providers ! 7)))) = {''StakeScore'', ''FeatureScore'', ''LocationScore'', ''FeeScore''}"
proof -
  let ?ps = "config_Init True"
  let ?r = "rankWorker_task ?ps mock_ConsumerPolicy (preScoreCtx_of [mock_Providers ! 7])
        (mock_Providers ! 7)"
  have len: "length mock_Providers = 8" by (simp add: mock_Providers_def)
  have one: "?r \<in> set (RankProviders reversing_runtime ?ps [mock_Providers ! 7] mock_ConsumerPolicy)"
    by (simp add: set_RankProviders)
  have names: "scorer_Name ` set (scorers ?ps) =
      {''StakeScore'', ''FeatureScore'', ''LocationScore'', ''FeeScore''}"
    by (simp add: config_Init_def StakeScore_def FeatureScore_def LocationScore_def FeeScore_def)
  note all = C10_one_score_per_provider[where rt = reversing_runtime and ps = "?ps"
      and providers = mock_Providers and policy = mock_ConsumerPolicy]
  note single = C10_one_score_per_provider[where rt = reversing_runtime and ps = "?ps"
      and providers = "[mock_Providers ! 7]" and policy = mock_ConsumerPolicy]
  have a: "length (RankProviders reversing_runtime ?ps mock_Providers mock_ConsumerPolicy) = 8"
    using all[THEN conjunct2, THEN conjunct1] len by simp
  have b: "mset (map Provider (RankProviders reversing_runtime ?ps mock_Providers
      mock_ConsumerPolicy)) = mset mock_Providers"
    using all[THEN conjunct1] .
  from one single[THEN conjunct2, THEN conjunct2]
  have "set (map fst (Components ?r)) = scorer_Name ` set (scorers ?ps)"
    by simp
  with names have c: "set (map fst (Components ?r)) =
      {''StakeScore'', ''FeatureScore'', ''LocationScore'', ''FeeScore''}"
    by simp
  show ?thesis
    using a b one c by simp
qed

end
